theory Spec2Isabelle
  imports Complex_Main "HOL-Library.AList" "HOL-Library.Product_Lexorder" "HOL-Library.Multiset"
begin

section \<open>Data model (lib/supabase-secure.ts)\<close>

text \<open>
  JavaScript strings are modelled as \<^typ>\<open>string\<close>, holding the UTF-8 bytes of the text;
  only equality of strings is ever used, and UTF-8 is injective. A field of type
  \<^verbatim>\<open>string | null\<close> or an optional field \<^verbatim>\<open>f?: string\<close> is a \<^typ>\<open>string option\<close>.
  Integral JavaScript numbers are \<^typ>\<open>int\<close> (or \<^typ>\<open>nat\<close> for counters that only grow from 0),
  other numbers are \<^typ>\<open>real\<close>.
\<close>

record LocalStudent =
  contact_id :: string
  full_name :: "string option"
  phone :: "string option"
  email :: "string option"
  full_address :: "string option"
  coordinator :: "string option"
  "notes" :: "string option"
  gender :: "string option"
  city :: "string option"
  city_code :: "string option"
  region :: "string option"
  origin_country :: "string option"
  languages :: "string option"
  mother_tongue :: "string option"
  mother_tongue_code :: "string option"
  current_soldiers_count :: int
  is_scholarship_active :: bool
  max_soldiers :: int
  available_slots :: int
  volunteer_status :: "string option"

record LocalSoldier =
  contact_id :: string
  full_name :: "string option"
  phone :: "string option"
  email :: "string option"
  full_address :: "string option"
  coordinator :: "string option"
  "notes" :: "string option"
  special_requests :: "string option"
  gender :: "string option"
  city :: "string option"
  city_code :: "string option"
  region :: "string option"
  origin_country :: "string option"
  mother_tongue :: "string option"
  mother_tongue_code :: "string option"
  language_preference :: "string option"
  volunteer_gender_preference :: "string option"
  soldier_status :: "string option"
  has_special_requests :: bool

record MatchCriteria =
  language_match :: bool
  distance_score :: real
  gender_pref_match :: bool
  region_match :: bool

datatype match_status = suggested | approved | rejected

text \<open>The field \<^verbatim>\<open>id\<close> of the source is \<open>id'\<close> here (\<open>id\<close> is the identity function of HOL).\<close>

record EnrichedMatch =
  id' :: string
  student_external_id :: string
  soldier_external_id :: string
  confidence_score :: int
  match_rank :: nat
  match_criteria :: MatchCriteria
  status :: match_status
  student :: "LocalStudent option"
  soldier :: "LocalSoldier option"

text \<open>The interface \<^verbatim>\<open>MatchCandidate\<close> of lib/matchingAlgorithm-secure.ts.\<close>

record MatchCandidate =
  student :: LocalStudent
  soldier :: LocalSoldier
  score :: int
  criteria :: MatchCriteria

section \<open>Distance score (cityDistance: getDistanceScore)\<close>

text \<open>
  \<^verbatim>\<open>getCityDistance\<close> looks both cities up in the gazetteer and applies the Haversine formula
  in floating point; it is a parameter here, returning the distance in kilometres, or
  \<open>None\<close> for \<^verbatim>\<open>null\<close> (a city that is not resolved).
\<close>

definition getDistanceScore :: "(string \<Rightarrow> string \<Rightarrow> real option) \<Rightarrow> string \<Rightarrow> string \<Rightarrow> real" where
  "getDistanceScore getCityDistance city1 city2 =
     (case getCityDistance city1 city2 of
        None \<Rightarrow> 50
      | Some distance \<Rightarrow>
          if distance > 150 then 0
          else if distance \<le> 10 then 100
          else if distance \<le> 30 then 90
          else if distance \<le> 50 then 80
          else if distance \<le> 75 then 60
          else if distance \<le> 100 then 40
          else if distance \<le> 150 then 20
          else 0)"

section \<open>Scoring function (lib/matchingAlgorithm-secure.ts)\<close>

text \<open>The Hebrew literals of the source, as UTF-8 bytes.\<close>

definition he_zachar :: string where \<comment> \<open>"male" (student gender)\<close>
  "he_zachar = [CHR 0xD7, CHR 0x96, CHR 0xD7, CHR 0x9B, CHR 0xD7, CHR 0xA8]"

definition he_nekeva :: string where \<comment> \<open>"female" (student gender)\<close>
  "he_nekeva = [CHR 0xD7, CHR 0xA0, CHR 0xD7, CHR 0xA7, CHR 0xD7, CHR 0x91, CHR 0xD7, CHR 0x94]"

definition he_mitnadev :: string where \<comment> \<open>"volunteer", masculine\<close>
  "he_mitnadev = [CHR 0xD7, CHR 0x9E, CHR 0xD7, CHR 0xAA, CHR 0xD7, CHR 0xA0, CHR 0xD7, CHR 0x93,
                  CHR 0xD7, CHR 0x91]"

definition he_mitnadevet :: string where \<comment> \<open>"volunteer", feminine\<close>
  "he_mitnadevet = [CHR 0xD7, CHR 0x9E, CHR 0xD7, CHR 0xAA, CHR 0xD7, CHR 0xA0, CHR 0xD7, CHR 0x93,
                    CHR 0xD7, CHR 0x91, CHR 0xD7, CHR 0xAA]"

definition he_lo_chashuv :: string where \<comment> \<open>"does not matter"\<close>
  "he_lo_chashuv = [CHR 0xD7, CHR 0x9C, CHR 0xD7, CHR 0x90, CHR 0x20, CHR 0xD7, CHR 0x97,
                    CHR 0xD7, CHR 0xA9, CHR 0xD7, CHR 0x95, CHR 0xD7, CHR 0x91]"

text \<open>\<^verbatim>\<open>!s\<close> for \<^verbatim>\<open>s: string | null | undefined\<close>: null, undefined and the empty string are falsy.\<close>

definition falsy :: "string option \<Rightarrow> bool" where
  "falsy s = (case s of None \<Rightarrow> True | Some v \<Rightarrow> v = [])"

text \<open>\<^verbatim>\<open>s || ''\<close>\<close>

definition or_empty :: "string option \<Rightarrow> string" where
  "or_empty s = (case s of None \<Rightarrow> [] | Some v \<Rightarrow> v)"

definition languageFamilies :: "(string \<times> string list) list" where
  "languageFamilies =
     [(''slavic'', [''RU'', ''UK'', ''BG'', ''HR'', ''PL'']),
      (''romance'', [''FR'', ''ES'', ''IT'', ''PT'', ''RO'']),
      (''semitic'', [''HE'', ''AR'']),
      (''germanic'', [''DE'', ''NL'', ''DA''])]"

definition checkLanguageMatch :: "string option \<Rightarrow> string option \<Rightarrow> bool" where
  "checkLanguageMatch studentLangCode soldierLangCode =
     (if falsy studentLangCode \<or> falsy soldierLangCode then False
      else if studentLangCode = soldierLangCode then True
      else list_ex (\<lambda>(family, codes).
             or_empty studentLangCode \<in> set codes \<and> or_empty soldierLangCode \<in> set codes)
           languageFamilies)"

definition checkGenderMatch :: "string option \<Rightarrow> string option \<Rightarrow> bool" where
  "checkGenderMatch studentGender soldierPref =
     (if falsy soldierPref \<or> soldierPref = Some he_lo_chashuv \<or> soldierPref = Some ''any'' then True
      else if falsy studentGender then False
      else
        let genderCode = (if studentGender = Some he_zachar then Some ''M''
                          else if studentGender = Some he_nekeva then Some ''F''
                          else studentGender);
            prefCode = (if soldierPref = Some ''male'' \<or> soldierPref = Some he_mitnadev then Some ''M''
                        else if soldierPref = Some ''female'' \<or> soldierPref = Some he_mitnadevet then Some ''F''
                        else None)
        in genderCode = prefCode)"

text \<open>\<^verbatim>\<open>Math.round\<close>: the nearest integer, a tie going to the larger one.\<close>

definition Math_round :: "real \<Rightarrow> int" where
  "Math_round x = \<lfloor>x + 1 / 2\<rfloor>"

text \<open>
  \<^verbatim>\<open>calculateSecureMatch\<close>. The imported \<^verbatim>\<open>getDistanceScore\<close> is the first argument
  (\<open>distanceScoreOf\<close>); the declared result type is \<^verbatim>\<open>MatchCandidate | null\<close>. The
  parameters \<^verbatim>\<open>student\<close> and \<^verbatim>\<open>soldier\<close> are \<open>stu\<close> and \<open>sol\<close>, the field names being taken.
\<close>

definition calculateSecureMatch ::
  "(string \<Rightarrow> string \<Rightarrow> real) \<Rightarrow> LocalStudent \<Rightarrow> LocalSoldier \<Rightarrow> MatchCandidate option" where
  "calculateSecureMatch distanceScoreOf stu sol =
     (let genderMatch = checkGenderMatch (LocalStudent.gender stu)
                          (volunteer_gender_preference sol);
          languageMatch = checkLanguageMatch (LocalStudent.mother_tongue_code stu)
                            (LocalSoldier.mother_tongue_code sol);
          distanceScore = distanceScoreOf (or_empty (LocalStudent.city stu))
                            (or_empty (LocalSoldier.city sol));
          finalScore =
            (if genderMatch \<and> languageMatch then distanceScore
             else if \<not> genderMatch \<and> languageMatch then 70 - (100 - distanceScore)
             else if genderMatch \<and> \<not> languageMatch then 60 - (100 - distanceScore)
             else 30 - (100 - distanceScore));
          finalScore = max 1 (Math_round finalScore)
      in Some \<lparr> MatchCandidate.student = stu, MatchCandidate.soldier = sol,
                score = finalScore,
                criteria = \<lparr> language_match = languageMatch,
                             distance_score = distanceScore,
                             gender_pref_match = genderMatch,
                             region_match = (LocalStudent.region stu = LocalSoldier.region sol) \<rparr> \<rparr>)"

section \<open>Candidate generator\<close>

text \<open>
  \<^verbatim>\<open>Array.prototype.sort\<close> is a stable sort, and each comparator of the source is the
  difference of a numeric key (or of two keys, the second deciding ties of the first): the
  sorted array is the stable sort of the input by that key in ascending order, which is
  \<^const>\<open>sort_key\<close> (stable insertion sort). A comparator \<^verbatim>\<open>b.score - a.score\<close> (descending
  score) is the key \<open>- score\<close>; the comparator of the re-sort in the allocator (fewer
  assignments first, then higher score) is the pair of the count and \<open>- score\<close> in the
  lexicographic order.

  A \<^verbatim>\<open>Map<string, V>\<close> is an association list in insertion order; \<^verbatim>\<open>set\<close> on a key that
  is present replaces the value and keeps the key's position, which is \<^const>\<open>AList.update\<close>.
\<close>

text \<open>The inner loop of \<^verbatim>\<open>findAllSecureMatches\<close>: the candidates of one soldier, in student order.\<close>

fun collectCandidates ::
  "(string \<Rightarrow> string \<Rightarrow> real) \<Rightarrow> LocalSoldier \<Rightarrow> LocalStudent list \<Rightarrow> MatchCandidate list" where
  "collectCandidates distanceScoreOf sol [] = []"
| "collectCandidates distanceScoreOf sol (stu # students) =
     (case calculateSecureMatch distanceScoreOf stu sol of
        None \<Rightarrow> collectCandidates distanceScoreOf sol students
      | Some match \<Rightarrow>
          if score match > 0 then match # collectCandidates distanceScoreOf sol students
          else collectCandidates distanceScoreOf sol students)"

definition findAllSecureMatches ::
  "(string \<Rightarrow> string \<Rightarrow> real) \<Rightarrow> LocalStudent list \<Rightarrow> LocalSoldier list
     \<Rightarrow> (string \<times> MatchCandidate list) list" where
  "findAllSecureMatches distanceScoreOf students soldiers =
     foldl (\<lambda>matchesBySoldier sol.
              AList.update (LocalSoldier.contact_id sol)
                (sort_key (\<lambda>c. - score c) (collectCandidates distanceScoreOf sol students))
                matchesBySoldier)
       [] soldiers"

section \<open>Allocator\<close>

text \<open>
  \<^verbatim>\<open>crypto.randomUUID()\<close> is the only source of randomness: \<open>randomUUID k\<close> is the value of
  the \<open>k\<close>-th call of one run, and the number of calls made so far is part of the state.
  The state of \<^verbatim>\<open>optimizeSecureMatches\<close> is \<^verbatim>\<open>result\<close>, \<^verbatim>\<open>studentAssignments\<close> and that number.
\<close>

type_synonym alloc_state = "EnrichedMatch list \<times> (string \<rightharpoonup> nat) \<times> nat"

text \<open>\<^verbatim>\<open>studentAssignments.get(id) || 0\<close>\<close>

definition getCount :: "(string \<rightharpoonup> nat) \<Rightarrow> string \<Rightarrow> nat" where
  "getCount studentAssignments k = (case studentAssignments k of None \<Rightarrow> 0 | Some n \<Rightarrow> n)"

definition initialAssignments :: "LocalStudent list \<Rightarrow> (string \<rightharpoonup> nat)" where
  "initialAssignments students =
     foldl (\<lambda>studentAssignments stu. studentAssignments(LocalStudent.contact_id stu \<mapsto> 0))
       Map.empty students"

text \<open>The loop over \<^verbatim>\<open>sortedCandidates\<close>; the first component of the state is \<^verbatim>\<open>assignedForSoldier\<close>.\<close>

fun assignCandidates :: "(nat \<Rightarrow> string) \<Rightarrow> MatchCandidate list \<Rightarrow> alloc_state \<Rightarrow> alloc_state" where
  "assignCandidates randomUUID [] (assignedForSoldier, studentAssignments, calls) =
     (assignedForSoldier, studentAssignments, calls)"
| "assignCandidates randomUUID (candidate # rest) (assignedForSoldier, studentAssignments, calls) =
     (if length assignedForSoldier \<ge> 2 then (assignedForSoldier, studentAssignments, calls)
      else
        let studentId = LocalStudent.contact_id (MatchCandidate.student candidate) in
        if list_ex (\<lambda>m. student_external_id m = studentId) assignedForSoldier
        then assignCandidates randomUUID rest (assignedForSoldier, studentAssignments, calls)
        else
          let rank = length assignedForSoldier + 1;
              match = \<lparr> id' = randomUUID calls,
                        student_external_id = LocalStudent.contact_id (MatchCandidate.student candidate),
                        soldier_external_id = LocalSoldier.contact_id (MatchCandidate.soldier candidate),
                        confidence_score = score candidate,
                        match_rank = rank,
                        match_criteria = criteria candidate,
                        status = suggested,
                        EnrichedMatch.student = Some (MatchCandidate.student candidate),
                        EnrichedMatch.soldier = Some (MatchCandidate.soldier candidate) \<rparr>
          in assignCandidates randomUUID rest
               (assignedForSoldier @ [match],
                if rank = 1
                then studentAssignments(studentId \<mapsto> getCount studentAssignments studentId + 1)
                else studentAssignments,
                Suc calls))"

text \<open>The body of the loop over \<^verbatim>\<open>soldiersWithOptions\<close>.\<close>

definition processSoldier ::
  "(nat \<Rightarrow> string) \<Rightarrow> alloc_state \<Rightarrow> string \<times> MatchCandidate list \<Rightarrow> alloc_state" where
  "processSoldier randomUUID st entry =
     (case st of (result, studentAssignments, calls) \<Rightarrow>
      case entry of (soldierId, candidates) \<Rightarrow>
        if length candidates = 0 then (result, studentAssignments, calls)
        else
          let sortedCandidates =
                sort_key (\<lambda>c. (getCount studentAssignments
                                  (LocalStudent.contact_id (MatchCandidate.student c)),
                                - score c))
                  candidates
          in case assignCandidates randomUUID sortedCandidates ([], studentAssignments, calls) of
               (assignedForSoldier, studentAssignments', calls') \<Rightarrow>
                 (result @ assignedForSoldier, studentAssignments', calls'))"

text \<open>The first part of \<^verbatim>\<open>optimizeSecureMatches\<close>, up to the final pass.\<close>

definition assignAll ::
  "(nat \<Rightarrow> string) \<Rightarrow> (string \<times> MatchCandidate list) list \<Rightarrow> LocalStudent list \<Rightarrow> alloc_state" where
  "assignAll randomUUID matchesBySoldier students =
     (let soldiersWithOptions =
            sort_key (\<lambda>(soldierId, candidates). length candidates) matchesBySoldier
      in foldl (processSoldier randomUUID) ([], initialAssignments students, 0) soldiersWithOptions)"

text \<open>
  The scan for \<^verbatim>\<open>bestSwapIdx\<close> and \<^verbatim>\<open>bestOverload\<close>, from index \<open>i\<close> on.
\<close>

function findBestSwap ::
  "(string \<rightharpoonup> nat) \<Rightarrow> EnrichedMatch list \<Rightarrow> nat \<Rightarrow> int \<times> nat \<Rightarrow> int \<times> nat" where
  "findBestSwap studentAssignments result i (bestSwapIdx, bestOverload) =
     (if i < length result then
        let match = result ! i in
        if match_rank match \<noteq> 2
        then findBestSwap studentAssignments result (Suc i) (bestSwapIdx, bestOverload)
        else
          let assignedStudentId = student_external_id match;
              assignedCount = getCount studentAssignments assignedStudentId
          in if assignedCount > bestOverload
             then findBestSwap studentAssignments result (Suc i) (int i, assignedCount)
             else findBestSwap studentAssignments result (Suc i) (bestSwapIdx, bestOverload)
      else (bestSwapIdx, bestOverload))"
  by pat_completeness auto
termination
  by (relation "measure (\<lambda>(studentAssignments, result, i, best). length result - i)") auto

text \<open>
  Reading a property of \<^verbatim>\<open>undefined\<close> throws a \<^verbatim>\<open>TypeError\<close>: in the final pass that is
  \<^verbatim>\<open>result[bestSwapIdx]\<close> out of range, or \<^verbatim>\<open>oldMatch.soldier\<close> being absent.
\<close>

datatype error = TypeError

text \<open>The body of the loop over \<^verbatim>\<open>unusedStudents\<close>.\<close>

definition swapUnused ::
  "(string \<Rightarrow> string \<Rightarrow> real) \<Rightarrow> (nat \<Rightarrow> string) \<Rightarrow> LocalStudent \<Rightarrow> alloc_state \<Rightarrow> error + alloc_state" where
  "swapUnused distanceScoreOf randomUUID unusedStudent st =
     (case st of (result, studentAssignments, calls) \<Rightarrow>
      case findBestSwap studentAssignments result 0 (- 1, 0) of (bestSwapIdx, bestOverload) \<Rightarrow>
        if bestSwapIdx \<ge> 0 \<and> bestOverload > 1 then
          if nat bestSwapIdx < length result then
            let oldMatch = result ! nat bestSwapIdx in
            case EnrichedMatch.soldier oldMatch of
              None \<Rightarrow> Inl TypeError
            | Some sol \<Rightarrow>
               (case calculateSecureMatch distanceScoreOf unusedStudent
                       \<lparr> LocalSoldier.contact_id = soldier_external_id oldMatch,
                         full_name = None, phone = None, email = None, full_address = None,
                         coordinator = None, notes = None, special_requests = None,
                         gender = LocalSoldier.gender sol,
                         city = LocalSoldier.city sol,
                         city_code = LocalSoldier.city_code sol,
                         region = LocalSoldier.region sol,
                         origin_country = LocalSoldier.origin_country sol,
                         mother_tongue = LocalSoldier.mother_tongue sol,
                         mother_tongue_code = LocalSoldier.mother_tongue_code sol,
                         language_preference = language_preference sol,
                         volunteer_gender_preference = volunteer_gender_preference sol,
                         soldier_status = soldier_status sol,
                         has_special_requests = has_special_requests sol \<rparr> of
                  None \<Rightarrow> Inr (result, studentAssignments, calls)
                | Some newCandidate \<Rightarrow>
                    Inr (result[nat bestSwapIdx :=
                           \<lparr> id' = randomUUID calls,
                             student_external_id = LocalStudent.contact_id unusedStudent,
                             soldier_external_id = soldier_external_id oldMatch,
                             confidence_score = score newCandidate,
                             match_rank = 2,
                             match_criteria = criteria newCandidate,
                             status = suggested,
                             EnrichedMatch.student = Some unusedStudent,
                             EnrichedMatch.soldier = Some sol \<rparr>],
                         studentAssignments(LocalStudent.contact_id unusedStudent \<mapsto>
                           getCount studentAssignments (LocalStudent.contact_id unusedStudent) + 1),
                         Suc calls))
          else Inl TypeError
        else Inr (result, studentAssignments, calls))"

text \<open>The loop over \<^verbatim>\<open>unusedStudents\<close>; a \<^verbatim>\<open>TypeError\<close> ends it.\<close>

fun swapLoop ::
  "(string \<Rightarrow> string \<Rightarrow> real) \<Rightarrow> (nat \<Rightarrow> string) \<Rightarrow> LocalStudent list \<Rightarrow> alloc_state \<Rightarrow> error + alloc_state" where
  "swapLoop distanceScoreOf randomUUID [] st = Inr st"
| "swapLoop distanceScoreOf randomUUID (unusedStudent # rest) st =
     (case swapUnused distanceScoreOf randomUUID unusedStudent st of
        Inl e \<Rightarrow> Inl e
      | Inr st' \<Rightarrow> swapLoop distanceScoreOf randomUUID rest st')"

text \<open>\<^verbatim>\<open>unusedStudents\<close>: the students that no assignment of \<^verbatim>\<open>result\<close> names.\<close>

definition unusedStudentsOf :: "EnrichedMatch list \<Rightarrow> LocalStudent list \<Rightarrow> LocalStudent list" where
  "unusedStudentsOf result students =
     (let usedStudentIds = set (map student_external_id result)
      in filter (\<lambda>s. LocalStudent.contact_id s \<notin> usedStudentIds) students)"

text \<open>The final pass of \<^verbatim>\<open>optimizeSecureMatches\<close>, from the state the first part leaves.\<close>

definition finalPass ::
  "(string \<Rightarrow> string \<Rightarrow> real) \<Rightarrow> (nat \<Rightarrow> string) \<Rightarrow> LocalStudent list \<Rightarrow> alloc_state \<Rightarrow> error + alloc_state" where
  "finalPass distanceScoreOf randomUUID students st =
     (let unusedStudents = unusedStudentsOf (fst st) students
      in if length unusedStudents > 0
         then swapLoop distanceScoreOf randomUUID unusedStudents st
         else Inr st)"

definition optimizeSecureMatches ::
  "(string \<Rightarrow> string \<Rightarrow> real) \<Rightarrow> (nat \<Rightarrow> string) \<Rightarrow> (string \<times> MatchCandidate list) list
     \<Rightarrow> LocalStudent list \<Rightarrow> error + EnrichedMatch list" where
  "optimizeSecureMatches distanceScoreOf randomUUID matchesBySoldier students =
     (case finalPass distanceScoreOf randomUUID students
             (assignAll randomUUID matchesBySoldier students) of
        Inl e \<Rightarrow> Inl e
      | Inr (result, studentAssignments, calls) \<Rightarrow> Inr result)"

section \<open>Summary and entry point\<close>

record MatchingSummary =
  totalStudents :: int
  totalSoldiers :: int
  totalMatches :: int
  soldiersWithTwoMatches :: int
  soldiersWithOneMatch :: int
  soldiersWithNoMatch :: int
  studentsUsed :: int
  studentsNotUsed :: int
  avgScore :: int
  highScoreMatches :: int
  mediumScoreMatches :: int
  lowScoreMatches :: int

text \<open>\<^verbatim>\<open>matchesBySoldierId.get(id) || 0\<close>\<close>

definition getOr0 :: "(string \<times> int) list \<Rightarrow> string \<Rightarrow> int" where
  "getOr0 m k = (case map_of m k of None \<Rightarrow> 0 | Some n \<Rightarrow> n)"

text \<open>\<^verbatim>\<open>Set.prototype.add\<close>, the set being the list of its elements in insertion order.\<close>

definition set_add :: "string \<Rightarrow> string list \<Rightarrow> string list" where
  "set_add x xs = (if x \<in> set xs then xs else xs @ [x])"

text \<open>
  The loop of \<^verbatim>\<open>runSecureMatchingAlgorithm\<close> over the sorted assignments fills
  \<^verbatim>\<open>matchesBySoldierId\<close> and \<^verbatim>\<open>usedStudentIds\<close>; the summary is then built from them.
\<close>

definition countBySoldier :: "EnrichedMatch list \<Rightarrow> (string \<times> int) list" where
  "countBySoldier optimizedMatches =
     foldl (\<lambda>matchesBySoldierId m.
              AList.update (soldier_external_id m)
                (getOr0 matchesBySoldierId (soldier_external_id m) + 1) matchesBySoldierId)
       [] optimizedMatches"

definition collectUsed :: "EnrichedMatch list \<Rightarrow> string list" where
  "collectUsed optimizedMatches =
     foldl (\<lambda>usedStudentIds m. set_add (student_external_id m) usedStudentIds) [] optimizedMatches"

definition buildSummary ::
  "LocalStudent list \<Rightarrow> LocalSoldier list \<Rightarrow> EnrichedMatch list \<Rightarrow> MatchingSummary" where
  "buildSummary availableStudents awaitingSoldiers optimizedMatches =
     (let matchesBySoldierId = countBySoldier optimizedMatches;
          usedStudentIds = collectUsed optimizedMatches;
          soldiersWithTwo = int (length (filter (\<lambda>c. c \<ge> 2) (map snd matchesBySoldierId)));
          soldiersWithOne = int (length (filter (\<lambda>c. c = 1) (map snd matchesBySoldierId)));
          soldiersWithNone = int (length awaitingSoldiers) - int (length matchesBySoldierId);
          totalScore = foldl (\<lambda>s m. s + confidence_score m) 0 optimizedMatches
      in \<lparr> totalStudents = int (length availableStudents),
           totalSoldiers = int (length awaitingSoldiers),
           totalMatches = int (length optimizedMatches),
           soldiersWithTwoMatches = soldiersWithTwo,
           soldiersWithOneMatch = soldiersWithOne,
           soldiersWithNoMatch = soldiersWithNone,
           studentsUsed = int (length usedStudentIds),
           studentsNotUsed = int (length availableStudents) - int (length usedStudentIds),
           avgScore = (if length optimizedMatches > 0
                       then Math_round (real_of_int totalScore / real (length optimizedMatches))
                       else 0),
           highScoreMatches = int (length (filter (\<lambda>m. confidence_score m \<ge> 70) optimizedMatches)),
           mediumScoreMatches =
             int (length (filter (\<lambda>m. confidence_score m \<ge> 30 \<and> confidence_score m < 70)
                            optimizedMatches)),
           lowScoreMatches = int (length (filter (\<lambda>m. confidence_score m < 30) optimizedMatches)) \<rparr>)"

definition runSecureMatchingAlgorithm ::
  "(string \<Rightarrow> string \<Rightarrow> real) \<Rightarrow> (nat \<Rightarrow> string) \<Rightarrow> LocalStudent list \<Rightarrow> LocalSoldier list
     \<Rightarrow> error + (EnrichedMatch list \<times> MatchingSummary)" where
  "runSecureMatchingAlgorithm distanceScoreOf randomUUID students soldiers =
     (let availableStudents = students;
          awaitingSoldiers = soldiers;
          allMatches = findAllSecureMatches distanceScoreOf availableStudents awaitingSoldiers
      in case optimizeSecureMatches distanceScoreOf randomUUID allMatches availableStudents of
           Inl e \<Rightarrow> Inl e
         | Inr optimizedMatches \<Rightarrow>
             let optimizedMatches = sort_key (\<lambda>m. - confidence_score m) optimizedMatches
             in Inr (optimizedMatches,
                     buildSummary availableStudents awaitingSoldiers optimizedMatches))"

section \<open>The decision table as the specification words it\<close>

definition spec_table_score :: "bool \<Rightarrow> bool \<Rightarrow> real \<Rightarrow> real" where
  "spec_table_score genderOk languageOk d =
     (case (genderOk, languageOk) of
        (True, True) \<Rightarrow> d
      | (False, True) \<Rightarrow> 70 - (100 - d)
      | (True, False) \<Rightarrow> 60 - (100 - d)
      | (False, False) \<Rightarrow> 30 - (100 - d))"

definition spec_final_score :: "bool \<Rightarrow> bool \<Rightarrow> real \<Rightarrow> int" where
  "spec_final_score genderOk languageOk d = max 1 (round (spec_table_score genderOk languageOk d))"

section \<open>Predicates used in the proofs\<close>

text \<open>An assignment made from a candidate, as the loop over \<^verbatim>\<open>sortedCandidates\<close> makes it.\<close>

definition fromCandidate :: "MatchCandidate \<Rightarrow> EnrichedMatch \<Rightarrow> bool" where
  "fromCandidate c m =
     (student_external_id m = LocalStudent.contact_id (MatchCandidate.student c) \<and>
      soldier_external_id m = LocalSoldier.contact_id (MatchCandidate.soldier c) \<and>
      confidence_score m = score c \<and> match_criteria m = criteria c \<and> status m = suggested \<and>
      EnrichedMatch.student m = Some (MatchCandidate.student c) \<and>
      EnrichedMatch.soldier m = Some (MatchCandidate.soldier c))"

text \<open>
  The candidate lists as a \<^verbatim>\<open>Map\<close> keyed by the soldiers' identifiers holds them: no key
  twice, and under each key candidates of the soldier with that identifier.
\<close>

definition wfMap :: "(string \<times> MatchCandidate list) list \<Rightarrow> bool" where
  "wfMap matchesBySoldier =
     (distinct (map fst matchesBySoldier) \<and>
      (\<forall>(soldierId, candidates) \<in> set matchesBySoldier.
         \<forall>c \<in> set candidates. LocalSoldier.contact_id (MatchCandidate.soldier c) = soldierId))"

text \<open>The (student, soldier) pair of an assignment.\<close>

definition pairOf :: "EnrichedMatch \<Rightarrow> string \<times> string" where
  "pairOf m = (student_external_id m, soldier_external_id m)"

text \<open>The number of rank-1 assignments a student holds in an assignment list.\<close>

definition rank1Count :: "EnrichedMatch list \<Rightarrow> string \<Rightarrow> nat" where
  "rank1Count r h = length (filter (\<lambda>m. match_rank m = 1 \<and> student_external_id m = h) r)"

text \<open>The distinct students (by identifier) of a candidate list.\<close>

definition candidateIds :: "MatchCandidate list \<Rightarrow> string set" where
  "candidateIds cs = (\<lambda>c. LocalStudent.contact_id (MatchCandidate.student c)) ` set cs"

text \<open>
  A state of the final pass has the shape of the assignment list \<open>r0\<close> the pass started from:
  the same length, every assignment with its soldier record, and position by position the
  same rank, soldier identifier and soldier record, and the same assignment wherever the
  rank is not 2.
\<close>

definition sameShape :: "EnrichedMatch list \<Rightarrow> alloc_state \<Rightarrow> bool" where
  "sameShape r0 st =
     (case st of (r, sa, n) \<Rightarrow>
        length r = length r0 \<and>
        list_all (\<lambda>m. EnrichedMatch.soldier m \<noteq> None) r \<and>
        list_all2 (\<lambda>m0 m. match_rank m = match_rank m0 \<and>
                           soldier_external_id m = soldier_external_id m0 \<and>
                           EnrichedMatch.soldier m = EnrichedMatch.soldier m0 \<and>
                           (match_rank m0 \<noteq> 2 \<longrightarrow> m = m0)) r0 r)"

text \<open>
  The invariant of the final pass behind the absence of duplicate pairs; \<open>U\<close> is the set of
  students used when the pass starts. The pairs are distinct, no soldier has two rank-2
  assignments, and an assignment of a student outside \<open>U\<close> has rank 2.
\<close>

definition pairsInv :: "string set \<Rightarrow> alloc_state \<Rightarrow> bool" where
  "pairsInv U st =
     (case st of (r, sa, n) \<Rightarrow>
        (\<forall>m\<in>set r. EnrichedMatch.soldier m \<noteq> None) \<and>
        distinct (map pairOf r) \<and>
        distinct (map soldier_external_id (filter (\<lambda>m. match_rank m = 2) r)) \<and>
        (\<forall>m\<in>set r. student_external_id m \<notin> U \<longrightarrow> match_rank m = 2))"

text \<open>
  The invariant of the final pass behind the used students staying used: the shape of \<open>r0\<close> is
  kept, the counts of the students of \<open>r0\<close> are those of \<open>sa0\<close>, every student of \<open>r0\<close> is
  still assigned, and a student that is assigned is one of \<open>r0\<close> or in \<open>N\<close>.
\<close>

definition keepInv ::
  "EnrichedMatch list \<Rightarrow> (string \<rightharpoonup> nat) \<Rightarrow> string set \<Rightarrow> alloc_state \<Rightarrow> bool" where
  "keepInv r0 sa0 N st =
     (case st of (r, sa, n) \<Rightarrow>
        sameShape r0 st \<and>
        (\<forall>h\<in>student_external_id ` set r0. getCount sa h = getCount sa0 h) \<and>
        student_external_id ` set r0 \<subseteq> student_external_id ` set r \<and>
        student_external_id ` set r \<subseteq> student_external_id ` set r0 \<union> N)"

text \<open>
  An assignment with its \<^verbatim>\<open>id\<close> blanked, a state with the \<^verbatim>\<open>id\<close>s of its assignments
  blanked, and the source of identifiers that returns the empty string at every call: the
  means to compare two runs that draw different identifiers.
\<close>

definition forgetId :: "EnrichedMatch \<Rightarrow> EnrichedMatch" where
  "forgetId m = m\<lparr> id' := [] \<rparr>"

definition stripState :: "alloc_state \<Rightarrow> alloc_state" where
  "stripState st = (case st of (r, sa, n) \<Rightarrow> (map forgetId r, sa, n))"

definition noUUID :: "nat \<Rightarrow> string" where
  "noUUID k = []"

section \<open>Concrete inputs\<close>

definition exampleStudent ::
  "string \<Rightarrow> string option \<Rightarrow> string option \<Rightarrow> string option \<Rightarrow> LocalStudent" where
  "exampleStudent i g c l =
     \<lparr> LocalStudent.contact_id = i, full_name = None, phone = None, email = None,
       full_address = None, coordinator = None, notes = None, gender = g, city = c,
       city_code = None, region = None, origin_country = None, languages = None,
       mother_tongue = None, mother_tongue_code = l, current_soldiers_count = 0,
       is_scholarship_active = False, max_soldiers = 4, available_slots = 4,
       volunteer_status = None \<rparr>"

definition exampleSoldier ::
  "string \<Rightarrow> string option \<Rightarrow> string option \<Rightarrow> string option \<Rightarrow> LocalSoldier" where
  "exampleSoldier i p c l =
     \<lparr> LocalSoldier.contact_id = i, full_name = None, phone = None, email = None,
       full_address = None, coordinator = None, notes = None, special_requests = None,
       gender = None, city = c, city_code = None, region = None, origin_country = None,
       mother_tongue = None, mother_tongue_code = l, language_preference = None,
       volunteer_gender_preference = p, soldier_status = None, has_special_requests = False \<rparr>"

text \<open>A gazetteer of two cities, 82 km apart.\<close>

definition exampleCityDistance :: "string \<Rightarrow> string \<Rightarrow> real option" where
  "exampleCityDistance a b =
     (if a \<notin> {''Tel Aviv'', ''Haifa''} \<or> b \<notin> {''Tel Aviv'', ''Haifa''} then None
      else if a = b then Some 0 else Some 82)"

definition exampleScore :: "string \<Rightarrow> string \<Rightarrow> real" where
  "exampleScore = getDistanceScore exampleCityDistance"

definition studentA :: LocalStudent where
  "studentA = exampleStudent ''A'' (Some he_nekeva) (Some ''Tel Aviv'') (Some ''HE'')"

definition studentB :: LocalStudent where
  "studentB = exampleStudent ''B'' (Some he_zachar) (Some ''Haifa'') (Some ''RU'')"

definition studentC :: LocalStudent where
  "studentC = exampleStudent ''C'' (Some he_zachar) (Some ''Haifa'') (Some ''UK'')"

definition soldier1 :: LocalSoldier where
  "soldier1 = exampleSoldier ''s1'' (Some ''female'') (Some ''Tel Aviv'') (Some ''HE'')"

definition soldier2 :: LocalSoldier where
  "soldier2 = exampleSoldier ''s2'' (Some ''male'') (Some ''Haifa'') (Some ''RU'')"

definition soldier3 :: LocalSoldier where
  "soldier3 = exampleSoldier ''s3'' None (Some ''Tel Aviv'') (Some ''HE'')"

text \<open>
  Candidate lists that leave student C out: three soldiers compete for students A and B, so
  that the final pass has an unused student and an overloaded holder of a rank-2 slot.
\<close>

definition exampleMap :: "(string \<times> MatchCandidate list) list" where
  "exampleMap =
     [(''s1'', collectCandidates exampleScore soldier1 [studentA, studentB]),
      (''s2'', collectCandidates exampleScore soldier2 [studentA, studentB]),
      (''s3'', collectCandidates exampleScore soldier3 [studentA, studentB])]"

definition uuids1 :: "nat \<Rightarrow> string" where
  "uuids1 k = replicate (Suc k) CHR ''a''"

definition uuids2 :: "nat \<Rightarrow> string" where
  "uuids2 k = replicate (Suc k) CHR ''b''"

section \<open>Scoring function: the decision table and the range of the score\<close>

lemma getDistanceScore_range:
  "0 \<le> getDistanceScore getCityDistance a b \<and> getDistanceScore getCityDistance a b \<le> 100"
  by (simp add: getDistanceScore_def split: option.split)

lemma calculateSecureMatch_Some:
  "\<exists>c. calculateSecureMatch distanceScoreOf stu sol = Some c"
  by (simp add: calculateSecureMatch_def Let_def)

lemma calculateSecureMatch_fields:
  assumes "calculateSecureMatch distanceScoreOf stu sol = Some c"
  shows "MatchCandidate.student c = stu" and "MatchCandidate.soldier c = sol" and "1 \<le> score c"
  using assms by (auto simp: calculateSecureMatch_def Let_def)

text \<open>
  Claim C2. For every student and soldier, \<^verbatim>\<open>calculateSecureMatch\<close> returns a candidate whose
  score is the entry of the 2x2 decision table over (gender match, language match) at the
  distance score \<open>d\<close> -- \<open>d\<close>, \<open>70 - (100 - d)\<close>, \<open>60 - (100 - d)\<close>, \<open>30 - (100 - d)\<close> --
  rounded to the nearest integer and then clamped below at 1.
\<close>

theorem calculateSecureMatch_decision_table:
  "\<exists>c. calculateSecureMatch distanceScoreOf stu sol = Some c \<and>
        score c =
          spec_final_score
            (checkGenderMatch (LocalStudent.gender stu) (volunteer_gender_preference sol))
            (checkLanguageMatch (LocalStudent.mother_tongue_code stu)
               (LocalSoldier.mother_tongue_code sol))
            (distanceScoreOf (or_empty (LocalStudent.city stu)) (or_empty (LocalSoldier.city sol)))"
  by (simp add: calculateSecureMatch_def Let_def spec_final_score_def spec_table_score_def
      Math_round_def round_def)

theorem calculateSecureMatch_decision_table_witness:
  "\<exists>c. calculateSecureMatch exampleScore studentB soldier1 = Some c \<and> score c = 1"
proof -
  have "spec_final_score
            (checkGenderMatch (LocalStudent.gender studentB) (volunteer_gender_preference soldier1))
            (checkLanguageMatch (LocalStudent.mother_tongue_code studentB)
               (LocalSoldier.mother_tongue_code soldier1))
            (exampleScore (or_empty (LocalStudent.city studentB)) (or_empty (LocalSoldier.city soldier1)))
          = 1"
    by code_simp
  with calculateSecureMatch_decision_table[of exampleScore studentB soldier1]
  show ?thesis by simp
qed

text \<open>
  Claim C3. When the distance score lies in [0, 100], the score that \<^verbatim>\<open>calculateSecureMatch\<close>
  returns lies in [1, 100].
\<close>

theorem calculateSecureMatch_score_range:
  assumes "\<And>a b. 0 \<le> distanceScoreOf a b \<and> distanceScoreOf a b \<le> 100"
  shows "\<exists>c. calculateSecureMatch distanceScoreOf stu sol = Some c \<and> 1 \<le> score c \<and> score c \<le> 100"
proof -
  let ?d = "distanceScoreOf (or_empty (LocalStudent.city stu)) (or_empty (LocalSoldier.city sol))"
  have d: "?d \<le> 100" using assms by blast
  have up: "Math_round x \<le> 100" if "x \<le> 100" for x
  proof -
    have "x + 1 / 2 < 101" using that by simp
    then have "\<lfloor>x + 1 / 2\<rfloor> < 101" by (simp add: floor_less_iff)
    then show ?thesis by (simp add: Math_round_def)
  qed
  have "Math_round ?d \<le> 100" "Math_round (70 - (100 - ?d)) \<le> 100"
    "Math_round (60 - (100 - ?d)) \<le> 100" "Math_round (30 - (100 - ?d)) \<le> 100"
    using d by (auto intro!: up)
  then show ?thesis
    by (simp add: calculateSecureMatch_def Let_def)
qed

theorem calculateSecureMatch_score_range_witness:
  "(\<forall>a b. 0 \<le> exampleScore a b \<and> exampleScore a b \<le> 100) \<and>
   (\<exists>c. calculateSecureMatch exampleScore studentB soldier1 = Some c \<and> 1 \<le> score c \<and> score c \<le> 100)"
proof -
  have h: "\<And>a b. 0 \<le> exampleScore a b \<and> exampleScore a b \<le> 100"
    unfolding exampleScore_def by (rule getDistanceScore_range)
  show ?thesis
    using h calculateSecureMatch_score_range [of exampleScore studentB soldier1, OF h] by blast
qed

section \<open>The final pass: the scan and one swap\<close>

declare findBestSwap.simps [simp del]

lemma findBestSwap_unfold:
  "findBestSwap sa r i (b, ov) =
     (if i < length r then
        if match_rank (r ! i) \<noteq> 2 then findBestSwap sa r (Suc i) (b, ov)
        else if getCount sa (student_external_id (r ! i)) > ov
             then findBestSwap sa r (Suc i) (int i, getCount sa (student_external_id (r ! i)))
             else findBestSwap sa r (Suc i) (b, ov)
      else (b, ov))"
  by (subst findBestSwap.simps) (simp add: Let_def)

lemma findBestSwap_result:
  "findBestSwap sa r i (b, ov) = (b', ov') \<Longrightarrow>
     (b' = b \<and> ov' = ov) \<or>
     (0 \<le> b' \<and> i \<le> nat b' \<and> nat b' < length r \<and> match_rank (r ! nat b') = 2 \<and>
      getCount sa (student_external_id (r ! nat b')) = ov' \<and> ov < ov')"
proof (induction sa r i "(b, ov)" arbitrary: b ov rule: findBestSwap.induct)
  case (1 sa r i b ov)
  show ?case
  proof (cases "i < length r")
    case False
    with "1.prems" show ?thesis by (simp add: findBestSwap_unfold[of sa r i])
  next
    case True
    note lt = this
    show ?thesis
    proof (cases "match_rank (r ! i) \<noteq> 2")
      case True
      with lt "1.prems" have "findBestSwap sa r (Suc i) (b, ov) = (b', ov')" by (simp add: findBestSwap_unfold[of sa r i])
      from "1.hyps"(1)[OF lt refl True this] show ?thesis by auto
    next
      case False
      note r2 = this
      show ?thesis
      proof (cases "getCount sa (student_external_id (r ! i)) > ov")
        case True
        with lt r2 "1.prems"
        have "findBestSwap sa r (Suc i) (int i, getCount sa (student_external_id (r ! i))) = (b', ov')"
          by (simp add: findBestSwap_unfold[of sa r i])
        from "1.hyps"(2)[OF lt refl r2 refl refl True this] True lt r2 show ?thesis by auto
      next
        case False
        with lt r2 "1.prems" have "findBestSwap sa r (Suc i) (b, ov) = (b', ov')" by (simp add: findBestSwap_unfold[of sa r i])
        from "1.hyps"(3)[OF lt refl r2 refl refl False this] show ?thesis by auto
      qed
    qed
  qed
qed

lemma findBestSwap_max:
  "findBestSwap sa r i (b, ov) = (b', ov') \<Longrightarrow>
     ov \<le> ov' \<and> (\<forall>j. i \<le> j \<and> j < length r \<and> match_rank (r ! j) = 2 \<longrightarrow>
        getCount sa (student_external_id (r ! j)) \<le> ov')"
proof (induction sa r i "(b, ov)" arbitrary: b ov rule: findBestSwap.induct)
  case (1 sa r i b ov)
  show ?case
  proof (cases "i < length r")
    case False
    with "1.prems" show ?thesis by (simp add: findBestSwap_unfold[of sa r i])
  next
    case True
    note lt = this
    have step: "\<And>j. i \<le> j \<Longrightarrow> j = i \<or> Suc i \<le> j" by auto
    show ?thesis
    proof (cases "match_rank (r ! i) \<noteq> 2")
      case True
      with lt "1.prems" have "findBestSwap sa r (Suc i) (b, ov) = (b', ov')" by (simp add: findBestSwap_unfold[of sa r i])
      from "1.hyps"(1)[OF lt refl True this] True show ?thesis
        by (metis step)
    next
      case False
      note r2 = this
      show ?thesis
      proof (cases "getCount sa (student_external_id (r ! i)) > ov")
        case True
        with lt r2 "1.prems"
        have "findBestSwap sa r (Suc i) (int i, getCount sa (student_external_id (r ! i))) = (b', ov')"
          by (simp add: findBestSwap_unfold[of sa r i])
        from "1.hyps"(2)[OF lt refl r2 refl refl True this] True show ?thesis
          by (metis step less_imp_le order_trans)
      next
        case False
        with lt r2 "1.prems" have "findBestSwap sa r (Suc i) (b, ov) = (b', ov')" by (simp add: findBestSwap_unfold[of sa r i])
        from "1.hyps"(3)[OF lt refl r2 refl refl False this] False show ?thesis
          by (metis step not_less order_trans)
      qed
    qed
  qed
qed

lemma swapUnused_cases:
  assumes sol: "\<forall>m\<in>set r. EnrichedMatch.soldier m \<noteq> None"
  shows "swapUnused ds rnd u (r, sa, n) = Inr (r, sa, n) \<or>
     (\<exists>i x. i < length r \<and> match_rank (r ! i) = 2 \<and>
        1 < getCount sa (student_external_id (r ! i)) \<and>
        (\<forall>j<length r. match_rank (r ! j) = 2 \<longrightarrow>
           getCount sa (student_external_id (r ! j)) \<le> getCount sa (student_external_id (r ! i))) \<and>
        swapUnused ds rnd u (r, sa, n) =
          Inr (r[i := x],
               sa(LocalStudent.contact_id u \<mapsto> getCount sa (LocalStudent.contact_id u) + 1),
               Suc n) \<and>
        student_external_id x = LocalStudent.contact_id u \<and>
        soldier_external_id x = soldier_external_id (r ! i) \<and>
        match_rank x = 2 \<and>
        EnrichedMatch.soldier x = EnrichedMatch.soldier (r ! i) \<and>
        EnrichedMatch.student x = Some u \<and> id' x = rnd n \<and> status x = suggested \<and>
        1 \<le> confidence_score x)"
proof -
  obtain b ov where fb: "findBestSwap sa r 0 (- 1, 0) = (b, ov)"
    by (cases "findBestSwap sa r 0 (- 1, 0)") auto
  show ?thesis
  proof (cases "b \<ge> 0 \<and> ov > 1")
    case False
    with fb have "swapUnused ds rnd u (r, sa, n) = Inr (r, sa, n)"
      by (auto simp: swapUnused_def)
    then show ?thesis by blast
  next
    case True
    from findBestSwap_result[OF fb] True
    have idx: "nat b < length r" and rk: "match_rank (r ! nat b) = 2"
      and cnt: "getCount sa (student_external_id (r ! nat b)) = ov"
      by auto
    from findBestSwap_max[OF fb] cnt
    have mx: "\<forall>j<length r. match_rank (r ! j) = 2 \<longrightarrow>
           getCount sa (student_external_id (r ! j)) \<le> getCount sa (student_external_id (r ! nat b))"
      by simp
    from idx sol obtain s where s: "EnrichedMatch.soldier (r ! nat b) = Some s"
      by (metis nth_mem not_None_eq)
    let ?sol' = "\<lparr> LocalSoldier.contact_id = soldier_external_id (r ! nat b),
                         full_name = None, phone = None, email = None, full_address = None,
                         coordinator = None, notes = None, special_requests = None,
                         gender = LocalSoldier.gender s,
                         city = LocalSoldier.city s,
                         city_code = LocalSoldier.city_code s,
                         region = LocalSoldier.region s,
                         origin_country = LocalSoldier.origin_country s,
                         mother_tongue = LocalSoldier.mother_tongue s,
                         mother_tongue_code = LocalSoldier.mother_tongue_code s,
                         language_preference = language_preference s,
                         volunteer_gender_preference = volunteer_gender_preference s,
                         soldier_status = soldier_status s,
                         has_special_requests = has_special_requests s \<rparr>"
    obtain c where c: "calculateSecureMatch ds u ?sol' = Some c"
      using calculateSecureMatch_Some by blast
    let ?x = "\<lparr> id' = rnd n,
                             student_external_id = LocalStudent.contact_id u,
                             soldier_external_id = soldier_external_id (r ! nat b),
                             confidence_score = score c,
                             match_rank = 2,
                             match_criteria = criteria c,
                             status = suggested,
                             EnrichedMatch.student = Some u,
                             EnrichedMatch.soldier = Some s \<rparr>"
    have eq: "swapUnused ds rnd u (r, sa, n) =
          Inr (r[nat b := ?x],
               sa(LocalStudent.contact_id u \<mapsto> getCount sa (LocalStudent.contact_id u) + 1),
               Suc n)"
      using fb True idx s c by (simp add: swapUnused_def Let_def)
    have sc: "1 \<le> score c" using calculateSecureMatch_fields(3)[OF c] .
    have "1 < getCount sa (student_external_id (r ! nat b))" using cnt True by simp
    with idx rk mx eq s sc show ?thesis
      by (intro disjI2 exI[of _ "nat b"] exI[of _ ?x]) simp
  qed
qed

lemma swapLoop_invariant:
  assumes "I st"
    and "\<And>u st. u \<in> set us \<Longrightarrow> I st \<Longrightarrow> \<exists>st'. swapUnused ds rnd u st = Inr st' \<and> I st'"
  shows "\<exists>st'. swapLoop ds rnd us st = Inr st' \<and> I st'"
  using assms
proof (induction us arbitrary: st)
  case Nil
  then show ?case by simp
next
  case (Cons u us)
  from Cons.prems(2)[of u st] Cons.prems(1)
  obtain st1 where s1: "swapUnused ds rnd u st = Inr st1" and i1: "I st1" by auto
  from Cons.IH[OF i1] Cons.prems(2)
  obtain st' where "swapLoop ds rnd us st1 = Inr st'" "I st'" by auto
  with s1 show ?case by simp
qed

lemma sameShape_step:
  assumes "sameShape r0 st"
  shows "\<exists>st'. swapUnused ds rnd u st = Inr st' \<and> sameShape r0 st'"
proof -
  obtain r sa n where st: "st = (r, sa, n)" by (cases st) auto
  from assms st have len: "length r = length r0"
    and sol: "\<forall>m\<in>set r. EnrichedMatch.soldier m \<noteq> None"
    and sh: "list_all2 (\<lambda>m0 m. match_rank m = match_rank m0 \<and>
                           soldier_external_id m = soldier_external_id m0 \<and>
                           EnrichedMatch.soldier m = EnrichedMatch.soldier m0 \<and>
                           (match_rank m0 \<noteq> 2 \<longrightarrow> m = m0)) r0 r"
    by (auto simp: sameShape_def list_all_iff)
  from swapUnused_cases[OF sol, of ds rnd u sa n]
  show ?thesis
  proof
    assume "swapUnused ds rnd u (r, sa, n) = Inr (r, sa, n)"
    with assms st show ?thesis by auto
  next
    assume "\<exists>i x. i < length r \<and> match_rank (r ! i) = 2 \<and>
        1 < getCount sa (student_external_id (r ! i)) \<and>
        (\<forall>j<length r. match_rank (r ! j) = 2 \<longrightarrow>
           getCount sa (student_external_id (r ! j)) \<le> getCount sa (student_external_id (r ! i))) \<and>
        swapUnused ds rnd u (r, sa, n) =
          Inr (r[i := x],
               sa(LocalStudent.contact_id u \<mapsto> getCount sa (LocalStudent.contact_id u) + 1),
               Suc n) \<and>
        student_external_id x = LocalStudent.contact_id u \<and>
        soldier_external_id x = soldier_external_id (r ! i) \<and>
        match_rank x = 2 \<and>
        EnrichedMatch.soldier x = EnrichedMatch.soldier (r ! i) \<and>
        EnrichedMatch.student x = Some u \<and> id' x = rnd n \<and> status x = suggested \<and>
        1 \<le> confidence_score x"
    then obtain i x where i: "i < length r" and rk: "match_rank (r ! i) = 2"
      and eq: "swapUnused ds rnd u (r, sa, n) =
          Inr (r[i := x],
               sa(LocalStudent.contact_id u \<mapsto> getCount sa (LocalStudent.contact_id u) + 1),
               Suc n)"
      and x: "soldier_external_id x = soldier_external_id (r ! i)" "match_rank x = 2"
        "EnrichedMatch.soldier x = EnrichedMatch.soldier (r ! i)"
      by blast
    have "EnrichedMatch.soldier x \<noteq> None" using x(3) sol i by (metis nth_mem)
    then have sol': "\<forall>m\<in>set (r[i := x]). EnrichedMatch.soldier m \<noteq> None"
      using sol by (metis insert_iff set_update_subset_insert subsetD)
    have sh': "list_all2 (\<lambda>m0 m. match_rank m = match_rank m0 \<and>
                           soldier_external_id m = soldier_external_id m0 \<and>
                           EnrichedMatch.soldier m = EnrichedMatch.soldier m0 \<and>
                           (match_rank m0 \<noteq> 2 \<longrightarrow> m = m0)) r0 (r[i := x])"
      using sh i rk x len
      by (auto simp: list_all2_conv_all_nth nth_list_update)
    from eq st len sol' sh' show ?thesis
      by (simp add: sameShape_def list_all_iff)
  qed
qed

lemma swapLoop_sameShape:
  assumes "sameShape r0 st"
  shows "\<exists>st'. swapLoop ds rnd us st = Inr st' \<and> sameShape r0 st'"
  using assms by (rule swapLoop_invariant) (rule sameShape_step)

lemma sameShape_refl:
  "list_all (\<lambda>m. EnrichedMatch.soldier m \<noteq> None) r \<Longrightarrow> sameShape r (r, sa, n)"
  by (simp add: sameShape_def list_all2_conv_all_nth)

lemma finalPass_sameShape:
  assumes "list_all (\<lambda>m. EnrichedMatch.soldier m \<noteq> None) r"
  shows "\<exists>st'. finalPass ds rnd students (r, sa, n) = Inr st' \<and> sameShape r st'"
  using swapLoop_sameShape[OF sameShape_refl[OF assms]] sameShape_refl[OF assms]
  by (simp add: finalPass_def Let_def)

section \<open>The first part of the allocator\<close>

lemma assign_new:
  "assignCandidates rnd cs (as, sa, n) = (as', sa', n') \<Longrightarrow>
     \<exists>new. as' = as @ new \<and> n' = n + length new \<and>
           (\<forall>m\<in>set new. \<exists>c\<in>set cs. fromCandidate c m)"
proof (induction cs arbitrary: as sa n)
  case Nil
  then show ?case by simp
next
  case (Cons c cs)
  show ?case
  proof (cases "length as \<ge> 2")
    case True
    with Cons.prems show ?thesis by simp
  next
    case False
    note short = this
    show ?thesis
    proof (cases "list_ex (\<lambda>m. student_external_id m = LocalStudent.contact_id (MatchCandidate.student c)) as")
      case True
      with short Cons.prems have "assignCandidates rnd cs (as, sa, n) = (as', sa', n')"
        by (simp add: Let_def)
      from Cons.IH[OF this] show ?thesis by auto
    next
      case False
      let ?m = "\<lparr> id' = rnd n,
                        student_external_id = LocalStudent.contact_id (MatchCandidate.student c),
                        soldier_external_id = LocalSoldier.contact_id (MatchCandidate.soldier c),
                        confidence_score = score c,
                        match_rank = length as + 1,
                        match_criteria = criteria c,
                        status = suggested,
                        EnrichedMatch.student = Some (MatchCandidate.student c),
                        EnrichedMatch.soldier = Some (MatchCandidate.soldier c) \<rparr>"
      from False short Cons.prems obtain sa1 where
        "assignCandidates rnd cs (as @ [?m], sa1, Suc n) = (as', sa', n')"
        by (simp add: Let_def)
      from Cons.IH[OF this] obtain new where
        new: "as' = (as @ [?m]) @ new" "n' = Suc n + length new"
          "\<forall>m\<in>set new. \<exists>c\<in>set cs. fromCandidate c m"
        by blast
      have "fromCandidate c ?m" by (simp add: fromCandidate_def)
      with new show ?thesis
        by (intro exI[of _ "?m # new"]) auto
    qed
  qed
qed

lemma assign_ranks:
  "assignCandidates rnd cs (as, sa, n) = (as', sa', n') \<Longrightarrow>
     map match_rank as = [1..<Suc (length as)] \<Longrightarrow>
     map match_rank as' = [1..<Suc (length as')]"
  by (induction cs arbitrary: as sa n) (auto simp: Let_def split: if_splits)

lemma assign_distinct:
  "assignCandidates rnd cs (as, sa, n) = (as', sa', n') \<Longrightarrow>
     distinct (map student_external_id as) \<Longrightarrow> distinct (map student_external_id as')"
proof (induction cs arbitrary: as sa n)
  case Nil
  then show ?case by simp
next
  case (Cons c cs)
  let ?f = "\<lambda>c. LocalStudent.contact_id (MatchCandidate.student c)"
  show ?case
  proof (cases "length as \<ge> 2")
    case True
    with Cons.prems show ?thesis by simp
  next
    case False
    note short = this
    show ?thesis
    proof (cases "list_ex (\<lambda>m. student_external_id m = ?f c) as")
      case True
      with short Cons.prems have "assignCandidates rnd cs (as, sa, n) = (as', sa', n')"
        by (simp add: Let_def)
      from Cons.IH[OF this Cons.prems(2)] show ?thesis .
    next
      case False
      let ?m = "\<lparr> id' = rnd n,
                        student_external_id = ?f c,
                        soldier_external_id = LocalSoldier.contact_id (MatchCandidate.soldier c),
                        confidence_score = score c,
                        match_rank = length as + 1,
                        match_criteria = criteria c,
                        status = suggested,
                        EnrichedMatch.student = Some (MatchCandidate.student c),
                        EnrichedMatch.soldier = Some (MatchCandidate.soldier c) \<rparr>"
      from False have notin: "?f c \<notin> student_external_id ` set as"
        by (auto simp: list_ex_iff)
      from False short Cons.prems obtain sa1 where
        run: "assignCandidates rnd cs (as @ [?m], sa1, Suc n) = (as', sa', n')"
        by (simp add: Let_def)
      have "distinct (map student_external_id (as @ [?m]))"
        using Cons.prems(2) notin by simp
      from Cons.IH[OF run this] show ?thesis .
    qed
  qed
qed

lemma assign_counts:
  "assignCandidates rnd cs (as, sa, n) = (as', sa', n') \<Longrightarrow>
     getCount sa' h + rank1Count as h = getCount sa h + rank1Count as' h"
proof (induction cs arbitrary: as sa n)
  case Nil
  then show ?case by simp
next
  case (Cons c cs)
  show ?case
  proof (cases "length as \<ge> 2")
    case True
    with Cons.prems show ?thesis by simp
  next
    case False
    note short = this
    show ?thesis
    proof (cases "list_ex (\<lambda>m. student_external_id m = LocalStudent.contact_id (MatchCandidate.student c)) as")
      case True
      with short Cons.prems have "assignCandidates rnd cs (as, sa, n) = (as', sa', n')"
        by (simp add: Let_def)
      from Cons.IH[OF this] show ?thesis by auto
    next
      case False
      let ?sid = "LocalStudent.contact_id (MatchCandidate.student c)"
      let ?m = "\<lparr> id' = rnd n,
                        student_external_id = ?sid,
                        soldier_external_id = LocalSoldier.contact_id (MatchCandidate.soldier c),
                        confidence_score = score c,
                        match_rank = length as + 1,
                        match_criteria = criteria c,
                        status = suggested,
                        EnrichedMatch.student = Some (MatchCandidate.student c),
                        EnrichedMatch.soldier = Some (MatchCandidate.soldier c) \<rparr>"
      let ?sa1 = "if length as + 1 = 1 then sa(?sid \<mapsto> getCount sa ?sid + 1) else sa"
      from False short Cons.prems have
        "assignCandidates rnd cs (as @ [?m], ?sa1, Suc n) = (as', sa', n')"
        by (simp add: Let_def)
      from Cons.IH[OF this]
      have "getCount sa' h + rank1Count (as @ [?m]) h = getCount ?sa1 h + rank1Count as' h" .
      moreover have "getCount ?sa1 h + rank1Count as h = getCount sa h + rank1Count (as @ [?m]) h"
        by (auto simp: rank1Count_def getCount_def)
      ultimately show ?thesis by simp
    qed
  qed
qed

lemma assign_length:
  "assignCandidates rnd cs (as, sa, n) = (as', sa', n') \<Longrightarrow>
     length as \<le> 2 \<Longrightarrow> distinct (map student_external_id as) \<Longrightarrow>
     length as' =
       min 2 (length as +
              card ((\<lambda>c. LocalStudent.contact_id (MatchCandidate.student c)) ` set cs
                      - student_external_id ` set as))"
proof (induction cs arbitrary: as sa n)
  case Nil
  then show ?case by simp
next
  case (Cons c cs)
  let ?f = "\<lambda>c. LocalStudent.contact_id (MatchCandidate.student c)"
  let ?A = "student_external_id ` set as"
  show ?case
  proof (cases "length as \<ge> 2")
    case True
    with Cons.prems show ?thesis by simp
  next
    case False
    note short = this
    show ?thesis
    proof (cases "list_ex (\<lambda>m. student_external_id m = ?f c) as")
      case True
      with short Cons.prems have "assignCandidates rnd cs (as, sa, n) = (as', sa', n')"
        by (simp add: Let_def)
      from Cons.IH[OF this Cons.prems(2,3)]
      have "length as' = min 2 (length as + card (?f ` set cs - ?A))" .
      moreover from True have "?f c \<in> ?A" by (force simp: list_ex_iff)
      then have "?f ` set (c # cs) - ?A = ?f ` set cs - ?A" by auto
      ultimately show ?thesis by simp
    next
      case False
      let ?m = "\<lparr> id' = rnd n,
                        student_external_id = ?f c,
                        soldier_external_id = LocalSoldier.contact_id (MatchCandidate.soldier c),
                        confidence_score = score c,
                        match_rank = length as + 1,
                        match_criteria = criteria c,
                        status = suggested,
                        EnrichedMatch.student = Some (MatchCandidate.student c),
                        EnrichedMatch.soldier = Some (MatchCandidate.soldier c) \<rparr>"
      from False have notin: "?f c \<notin> ?A" by (auto simp: list_ex_iff)
      from False short Cons.prems obtain sa1 where
        "assignCandidates rnd cs (as @ [?m], sa1, Suc n) = (as', sa', n')"
        by (simp add: Let_def)
      from Cons.IH[OF this] short Cons.prems(3) notin
      have len: "length as' =
         min 2 (length (as @ [?m]) + card (?f ` set cs - student_external_id ` set (as @ [?m])))"
        by auto
      have fin: "finite (?f ` set cs - ?A)" by simp
      have "?f ` set (c # cs) - ?A = insert (?f c) (?f ` set cs - insert (?f c) ?A)"
        using notin by auto
      moreover have "?f c \<notin> ?f ` set cs - insert (?f c) ?A" by simp
      ultimately have "card (?f ` set (c # cs) - ?A) = Suc (card (?f ` set cs - insert (?f c) ?A))"
        by simp
      with len show ?thesis by simp
    qed
  qed
qed

lemma foldl_invariant:
  assumes "I st" and "\<And>st e. e \<in> set es \<Longrightarrow> I st \<Longrightarrow> I (f st e)"
  shows "I (foldl f st es)"
  using assms by (induction es arbitrary: st) auto

lemma processSoldier_block:
  "\<exists>new sa' n'. processSoldier rnd (r, sa, n) (k, cs) = (r @ new, sa', n') \<and>
      n' = n + length new \<and>
      map match_rank new = [1..<Suc (length new)] \<and>
      length new = min 2 (card (candidateIds cs)) \<and>
      distinct (map student_external_id new) \<and>
      (\<forall>m\<in>set new. \<exists>c\<in>set cs. fromCandidate c m) \<and>
      (\<forall>h. getCount sa' h = getCount sa h + rank1Count new h)"
proof (cases "cs = []")
  case True
  then show ?thesis
    by (simp add: processSoldier_def candidateIds_def rank1Count_def)
next
  case False
  let ?sorted = "sort_key (\<lambda>c. (getCount sa (LocalStudent.contact_id (MatchCandidate.student c)),
                                - score c)) cs"
  obtain new sa' n' where run: "assignCandidates rnd ?sorted ([], sa, n) = (new, sa', n')"
    by (cases "assignCandidates rnd ?sorted ([], sa, n)") auto
  have eq: "processSoldier rnd (r, sa, n) (k, cs) = (r @ new, sa', n')"
    using False run by (simp add: processSoldier_def Let_def)
  from assign_new[OF run] have n': "n' = n + length new"
    and from_c: "\<forall>m\<in>set new. \<exists>c\<in>set cs. fromCandidate c m"
    by auto
  from assign_ranks[OF run] have ranks: "map match_rank new = [1..<Suc (length new)]" by simp
  from assign_distinct[OF run] have dist: "distinct (map student_external_id new)" by simp
  from assign_length[OF run] have len: "length new = min 2 (card (candidateIds cs))"
    by (simp add: candidateIds_def)
  have cnt: "\<forall>h. getCount sa' h = getCount sa h + rank1Count new h"
    using assign_counts[OF run] by (simp add: rank1Count_def)
  from eq n' ranks len dist from_c cnt show ?thesis by blast
qed

lemma getCount_initialAssignments: "getCount (initialAssignments students) h = 0"
proof -
  have "\<forall>h. getCount (foldl (\<lambda>sa stu. sa(LocalStudent.contact_id stu \<mapsto> 0)) m students) h = 0"
    if "\<forall>h. getCount m h = 0" for m
    using that by (induction students arbitrary: m) (auto simp: getCount_def)
  then show ?thesis by (simp add: initialAssignments_def getCount_def)
qed

lemma rank1Count_append: "rank1Count (xs @ ys) h = rank1Count xs h + rank1Count ys h"
  by (simp add: rank1Count_def)

lemma assignAll_soldiers:
  "list_all (\<lambda>m. EnrichedMatch.soldier m \<noteq> None) (fst (assignAll rnd matchesBySoldier students))"
proof -
  let ?I = "\<lambda>st. list_all (\<lambda>m. EnrichedMatch.soldier m \<noteq> None) (fst st)"
  have step: "?I (processSoldier rnd st e)" if "?I st" for st e
  proof -
    obtain r sa n k cs where st: "st = (r, sa, n)" "e = (k, cs)"
      by (cases st, cases e) auto
    from processSoldier_block[of rnd r sa n k cs] obtain new sa' n' where
      "processSoldier rnd (r, sa, n) (k, cs) = (r @ new, sa', n')"
      "\<forall>m\<in>set new. \<exists>c\<in>set cs. fromCandidate c m"
      by blast
    with that st show ?thesis by (auto simp: list_all_iff fromCandidate_def)
  qed
  show ?thesis
    unfolding assignAll_def Let_def
  proof (rule foldl_invariant[where I = ?I])
    show "?I ([], initialAssignments students, 0)" by simp
  qed (rule step)
qed

lemma assignAll_counts:
  "assignAll rnd matchesBySoldier students = (r, sa, n) \<Longrightarrow> getCount sa h = rank1Count r h"
proof -
  let ?I = "\<lambda>st. case st of (r, sa, n) \<Rightarrow> \<forall>h. getCount sa h = rank1Count r h"
  have step: "?I (processSoldier rnd st e)" if "?I st" for st e
  proof -
    obtain r sa n k cs where st: "st = (r, sa, n)" "e = (k, cs)"
      by (cases st, cases e) auto
    from processSoldier_block[of rnd r sa n k cs] obtain new sa' n' where
      "processSoldier rnd (r, sa, n) (k, cs) = (r @ new, sa', n')"
      "\<forall>h. getCount sa' h = getCount sa h + rank1Count new h"
      by blast
    with that st show ?thesis by (simp add: rank1Count_append)
  qed
  have "?I (assignAll rnd matchesBySoldier students)"
    unfolding assignAll_def Let_def
  proof (rule foldl_invariant[where I = ?I])
    show "?I ([], initialAssignments students, 0)"
      by (simp add: getCount_initialAssignments rank1Count_def)
  qed (rule step)
  then show "assignAll rnd matchesBySoldier students = (r, sa, n) \<Longrightarrow> getCount sa h = rank1Count r h"
    by simp
qed

lemma optimizeSecureMatches_total:
  "\<exists>r. optimizeSecureMatches ds rnd matchesBySoldier students = Inr r"
proof -
  obtain r0 sa0 n0 where a: "assignAll rnd matchesBySoldier students = (r0, sa0, n0)"
    by (cases "assignAll rnd matchesBySoldier students") auto
  with assignAll_soldiers[of rnd matchesBySoldier students]
  have "list_all (\<lambda>m. EnrichedMatch.soldier m \<noteq> None) r0" by simp
  from finalPass_sameShape[OF this, of ds rnd students sa0 n0] a
  show ?thesis by (auto simp: optimizeSecureMatches_def)
qed

section \<open>Candidate generator\<close>

lemma set_update_cases:
  "p \<in> set (AList.update k v al) \<Longrightarrow> p = (k, v) \<or> p \<in> set al"
  by (induction al) (auto split: if_splits)


lemma distinct_foldl_update:
  "distinct (map fst al0) \<Longrightarrow>
     distinct (map fst (foldl (\<lambda>al x. AList.update (kf x) (vf x) al) al0 xs))"
  by (induction xs rule: rev_induct) (auto simp: distinct_update)

lemma set_foldl_update:
  "p \<in> set (foldl (\<lambda>al x. AList.update (kf x) (vf x) al) al0 xs) \<Longrightarrow>
     p \<in> set al0 \<or> (\<exists>x\<in>set xs. p = (kf x, vf x))"
  by (induction xs rule: rev_induct) (auto dest!: set_update_cases)

lemma collectCandidates_eq:
  "collectCandidates ds sol students = map (\<lambda>stu. the (calculateSecureMatch ds stu sol)) students"
proof (induction students)
  case Nil
  show ?case by simp
next
  case (Cons stu students)
  obtain c where c: "calculateSecureMatch ds stu sol = Some c"
    using calculateSecureMatch_Some by blast
  from calculateSecureMatch_fields(3)[OF c] have "0 < score c" by simp
  with c Cons show ?case by simp
qed


lemma collectCandidates_member:
  assumes "c \<in> set (collectCandidates ds sol students)"
  shows "MatchCandidate.soldier c = sol" and "0 < score c"
    and "calculateSecureMatch ds (MatchCandidate.student c) sol = Some c"
proof -
  from assms obtain stu where c': "c = the (calculateSecureMatch ds stu sol)"
    by (auto simp: collectCandidates_eq)
  obtain c0 where c0: "calculateSecureMatch ds stu sol = Some c0"
    using calculateSecureMatch_Some by blast
  with c' have "c = c0" by simp
  with c0 calculateSecureMatch_fields[OF c0]
  show "MatchCandidate.soldier c = sol" "0 < score c"
    "calculateSecureMatch ds (MatchCandidate.student c) sol = Some c"
    by auto
qed





section \<open>Summary\<close>

lemma countBySoldier_positive: "\<forall>p\<in>set (countBySoldier ms). 1 \<le> snd p"
proof -
  let ?I = "\<lambda>al::(string \<times> int) list. \<forall>p\<in>set al. 1 \<le> snd p"
  have step: "?I (AList.update k (getOr0 al k + 1) al)" if "?I al" for al k
  proof -
    have "0 \<le> getOr0 al k"
      using that by (auto simp: getOr0_def split: option.split dest!: map_of_SomeD)
    with that show ?thesis by (auto dest!: set_update_cases)
  qed
  show ?thesis
    unfolding countBySoldier_def
  proof (rule foldl_invariant[where I = ?I])
    show "?I []" by simp
  qed (rule step)
qed

lemma split_two_one:
  "\<forall>v\<in>set vs. (1::int) \<le> v \<Longrightarrow>
     length (filter (\<lambda>c. c \<ge> 2) vs) + length (filter (\<lambda>c. c = 1) vs) = length vs"
  by (induction vs) auto

lemma buildSummary_consistent:
  "soldiersWithTwoMatches (buildSummary students soldiers ms)
     + soldiersWithOneMatch (buildSummary students soldiers ms)
     + soldiersWithNoMatch (buildSummary students soldiers ms)
     = totalSoldiers (buildSummary students soldiers ms)"
  "studentsUsed (buildSummary students soldiers ms) + studentsNotUsed (buildSummary students soldiers ms)
     = totalStudents (buildSummary students soldiers ms)"
proof -
  have "\<forall>v\<in>set (map snd (countBySoldier ms)). 1 \<le> v"
    using countBySoldier_positive[of ms] by auto
  from split_two_one[OF this]
  show "soldiersWithTwoMatches (buildSummary students soldiers ms)
     + soldiersWithOneMatch (buildSummary students soldiers ms)
     + soldiersWithNoMatch (buildSummary students soldiers ms)
     = totalSoldiers (buildSummary students soldiers ms)"
    by (simp add: buildSummary_def Let_def)
  show "studentsUsed (buildSummary students soldiers ms) + studentsNotUsed (buildSummary students soldiers ms)
     = totalStudents (buildSummary students soldiers ms)"
    by (simp add: buildSummary_def Let_def)
qed

text \<open>
  Claim C8. The summary that \<^verbatim>\<open>runSecureMatchingAlgorithm\<close> returns satisfies
  \<open>soldiersWithTwoMatches + soldiersWithOneMatch + soldiersWithNoMatch = totalSoldiers\<close> and
  \<open>studentsUsed + studentsNotUsed = totalStudents\<close>, and the run returns (it does not throw).
\<close>

theorem summary_counts_consistent:
  "\<exists>ms s. runSecureMatchingAlgorithm distanceScoreOf randomUUID students soldiers = Inr (ms, s) \<and>
      soldiersWithTwoMatches s + soldiersWithOneMatch s + soldiersWithNoMatch s = totalSoldiers s \<and>
      studentsUsed s + studentsNotUsed s = totalStudents s"
proof -
  obtain r where r: "optimizeSecureMatches distanceScoreOf randomUUID
      (findAllSecureMatches distanceScoreOf students soldiers) students = Inr r"
    using optimizeSecureMatches_total by blast
  let ?ms = "sort_key (\<lambda>m. - confidence_score m) r"
  have "runSecureMatchingAlgorithm distanceScoreOf randomUUID students soldiers =
          Inr (?ms, buildSummary students soldiers ?ms)"
    using r by (simp add: runSecureMatchingAlgorithm_def Let_def)
  with buildSummary_consistent[of students soldiers ?ms] show ?thesis by blast
qed

theorem summary_counts_consistent_witness:
  "\<exists>ms s. runSecureMatchingAlgorithm exampleScore uuids1 [studentA, studentB, studentC]
              [soldier1, soldier2] = Inr (ms, s) \<and>
      soldiersWithTwoMatches s + soldiersWithOneMatch s + soldiersWithNoMatch s = totalSoldiers s \<and>
      studentsUsed s + studentsNotUsed s = totalStudents s"
  by (rule summary_counts_consistent)

section \<open>Empty inputs\<close>

lemma assignAll_no_candidates:
  assumes "\<forall>e\<in>set matchesBySoldier. snd e = []"
  shows "fst (assignAll rnd matchesBySoldier students) = []"
proof -
  let ?I = "\<lambda>st::alloc_state. fst st = []"
  let ?es = "sort_key (\<lambda>(soldierId, candidates). length candidates) matchesBySoldier"
  have "?I (foldl (processSoldier rnd) ([], initialAssignments students, 0) ?es)"
  proof (rule foldl_invariant[where I = ?I])
    show "?I ([], initialAssignments students, 0)" by simp
  next
    fix st :: alloc_state and e
    assume "e \<in> set ?es" and "?I st"
    with assms show "?I (processSoldier rnd st e)"
      by (cases st; cases e) (auto simp: processSoldier_def)
  qed
  then show ?thesis by (simp add: assignAll_def)
qed

lemma optimizeSecureMatches_empty:
  assumes "fst (assignAll rnd matchesBySoldier students) = []"
  shows "optimizeSecureMatches ds rnd matchesBySoldier students = Inr []"
proof -
  obtain sa0 n0 where a: "assignAll rnd matchesBySoldier students = ([], sa0, n0)"
    using assms by (cases "assignAll rnd matchesBySoldier students") auto
  from finalPass_sameShape[of "[]" ds rnd students sa0 n0]
  obtain st' where "finalPass ds rnd students ([], sa0, n0) = Inr st'" "sameShape [] st'"
    by auto
  with a show ?thesis
    by (cases st') (simp add: optimizeSecureMatches_def sameShape_def)
qed

lemma findAllSecureMatches_no_students:
  "\<forall>e\<in>set (findAllSecureMatches ds [] soldiers). snd e = []"
  unfolding findAllSecureMatches_def
  by (auto dest!: set_foldl_update)

lemma buildSummary_empty:
  "buildSummary students soldiers [] =
     \<lparr> totalStudents = int (length students), totalSoldiers = int (length soldiers),
       totalMatches = 0, soldiersWithTwoMatches = 0, soldiersWithOneMatch = 0,
       soldiersWithNoMatch = int (length soldiers), studentsUsed = 0,
       studentsNotUsed = int (length students), avgScore = 0, highScoreMatches = 0,
       mediumScoreMatches = 0, lowScoreMatches = 0 \<rparr>"
  by (simp add: buildSummary_def countBySoldier_def collectUsed_def)

text \<open>
  Claim C7 as stated fails: with no students and one soldier the run returns an empty
  assignment list, but not every count of the summary is zero (\<open>totalSoldiers\<close> and
  \<open>soldiersWithNoMatch\<close> are 1).
\<close>

theorem empty_input_counts_counterexample:
  "\<not> (\<exists>s. runSecureMatchingAlgorithm exampleScore uuids1 [] [soldier1] = Inr ([], s) \<and>
          totalStudents s = 0 \<and> totalSoldiers s = 0 \<and> totalMatches s = 0 \<and>
          soldiersWithTwoMatches s = 0 \<and> soldiersWithOneMatch s = 0 \<and>
          soldiersWithNoMatch s = 0 \<and> studentsUsed s = 0 \<and> studentsNotUsed s = 0 \<and>
          avgScore s = 0 \<and> highScoreMatches s = 0 \<and> mediumScoreMatches s = 0 \<and>
          lowScoreMatches s = 0)"
proof -
  have "optimizeSecureMatches exampleScore uuids1 (findAllSecureMatches exampleScore [] [soldier1]) []
          = Inr []"
    by (rule optimizeSecureMatches_empty, rule assignAll_no_candidates,
        rule findAllSecureMatches_no_students)
  then have "runSecureMatchingAlgorithm exampleScore uuids1 [] [soldier1] =
               Inr ([], buildSummary [] [soldier1] [])"
    by (simp add: runSecureMatchingAlgorithm_def)
  then show ?thesis by (simp add: buildSummary_empty)
qed

text \<open>
  Claim C7, amended. With no students or no soldiers, \<^verbatim>\<open>runSecureMatchingAlgorithm\<close> returns
  (it does not throw) an empty assignment list and a summary in which \<open>totalStudents\<close> and
  \<open>studentsNotUsed\<close> are the number of students given, \<open>totalSoldiers\<close> and
  \<open>soldiersWithNoMatch\<close> the number of soldiers given, and every other field is zero.
\<close>

theorem empty_input_result:
  assumes "students = [] \<or> soldiers = []"
  shows "runSecureMatchingAlgorithm distanceScoreOf randomUUID students soldiers =
     Inr ([], \<lparr> totalStudents = int (length students), totalSoldiers = int (length soldiers),
       totalMatches = 0, soldiersWithTwoMatches = 0, soldiersWithOneMatch = 0,
       soldiersWithNoMatch = int (length soldiers), studentsUsed = 0,
       studentsNotUsed = int (length students), avgScore = 0, highScoreMatches = 0,
       mediumScoreMatches = 0, lowScoreMatches = 0 \<rparr>)"
proof -
  have "\<forall>e\<in>set (findAllSecureMatches distanceScoreOf students soldiers). snd e = []"
    using assms
  proof
    assume "students = []"
    then show ?thesis using findAllSecureMatches_no_students by simp
  next
    assume "soldiers = []"
    then show ?thesis by (simp add: findAllSecureMatches_def)
  qed
  then have "optimizeSecureMatches distanceScoreOf randomUUID
               (findAllSecureMatches distanceScoreOf students soldiers) students = Inr []"
    by (intro optimizeSecureMatches_empty assignAll_no_candidates)
  then show ?thesis
    by (simp add: runSecureMatchingAlgorithm_def buildSummary_empty)
qed

theorem empty_input_result_witness:
  "([studentA, studentB] = [] \<or> ([]::LocalSoldier list) = []) \<and>
   runSecureMatchingAlgorithm exampleScore uuids1 [studentA, studentB] [] =
     Inr ([], \<lparr> totalStudents = 2, totalSoldiers = 0,
       totalMatches = 0, soldiersWithTwoMatches = 0, soldiersWithOneMatch = 0,
       soldiersWithNoMatch = 0, studentsUsed = 0,
       studentsNotUsed = 2, avgScore = 0, highScoreMatches = 0,
       mediumScoreMatches = 0, lowScoreMatches = 0 \<rparr>)"
  using empty_input_result[of "[studentA, studentB]" "[]" exampleScore uuids1] by simp

section \<open>The final pass as a whole\<close>

lemma swapLoop_append:
  "swapLoop ds rnd (us1 @ us2) st =
     (case swapLoop ds rnd us1 st of Inl e \<Rightarrow> Inl e | Inr st1 \<Rightarrow> swapLoop ds rnd us2 st1)"
  by (induction us1 arbitrary: st) (auto split: sum.splits)

lemma swapUnused_calls:
  assumes "swapUnused ds rnd u (r, sa, n) = Inr (r', sa', n')"
  shows "n \<le> n' \<and> n' \<le> Suc n"
  using assms
  by (auto simp: swapUnused_def Let_def split: prod.splits if_splits option.splits)

lemma swapLoop_calls:
  "swapLoop ds rnd us (r, sa, n) = Inr (r', sa', n') \<Longrightarrow> n \<le> n' \<and> n' \<le> n + length us"
proof (induction us arbitrary: r sa n)
  case Nil
  then show ?case by simp
next
  case (Cons u us)
  from Cons.prems obtain r1 sa1 n1 where
    s1: "swapUnused ds rnd u (r, sa, n) = Inr (r1, sa1, n1)"
    and rest: "swapLoop ds rnd us (r1, sa1, n1) = Inr (r', sa', n')"
    by (auto split: sum.splits)
  from swapUnused_calls[OF s1] Cons.IH[OF rest] show ?case by simp
qed

lemma sameShape_length: "sameShape r0 (r, sa, n) \<Longrightarrow> length r = length r0"
  by (simp add: sameShape_def)

lemma sameShape_nth:
  assumes "sameShape r0 (r, sa, n)" and "i < length r0"
  shows "match_rank (r ! i) = match_rank (r0 ! i) \<and>
         soldier_external_id (r ! i) = soldier_external_id (r0 ! i) \<and>
         (match_rank (r0 ! i) \<noteq> 2 \<longrightarrow> r ! i = r0 ! i)"
proof -
  from assms(1) have "list_all2 (\<lambda>m0 m. match_rank m = match_rank m0 \<and>
                           soldier_external_id m = soldier_external_id m0 \<and>
                           EnrichedMatch.soldier m = EnrichedMatch.soldier m0 \<and>
                           (match_rank m0 \<noteq> 2 \<longrightarrow> m = m0)) r0 r"
    by (simp add: sameShape_def)
  from list_all2_nthD[OF this assms(2)] show ?thesis by simp
qed

lemma finalPass_swapLoop:
  "finalPass ds rnd students (r0, sa0, n0) = swapLoop ds rnd (unusedStudentsOf r0 students) (r0, sa0, n0)"
  by (simp add: finalPass_def Let_def)

text \<open>
  Claim C6. The final pass is one loop over the students that are unused when it starts (at
  most one swap per unused student). It keeps the length of the assignment list and every
  assignment of rank 1 (more generally, of a rank other than 2) at its position; a position
  that changes held rank 2 before and holds rank 2, for the same soldier, after. Each step
  of the loop (the state \<open>(r1, sa1, n1)\<close> it starts from, the state \<open>st2\<close> it leaves) either
  changes nothing or replaces one assignment of rank 2 whose student has an assignment
  count above 1, that count being the largest among the holders of rank-2 assignments.
\<close>

theorem rebalancing_frame:
  assumes "assignAll randomUUID matchesBySoldier students = (r0, sa0, n0)"
  shows "\<exists>r sa n.
      finalPass distanceScoreOf randomUUID students (r0, sa0, n0) = Inr (r, sa, n) \<and>
      optimizeSecureMatches distanceScoreOf randomUUID matchesBySoldier students = Inr r \<and>
      length r = length r0 \<and>
      (\<forall>i<length r0. match_rank (r0 ! i) = 1 \<longrightarrow> r ! i = r0 ! i) \<and>
      (\<forall>i<length r0. r ! i \<noteq> r0 ! i \<longrightarrow>
          match_rank (r0 ! i) = 2 \<and> match_rank (r ! i) = 2 \<and>
          soldier_external_id (r ! i) = soldier_external_id (r0 ! i)) \<and>
      n0 \<le> n \<and> n \<le> n0 + length (unusedStudentsOf r0 students) \<and>
      (\<forall>us1 u us2. unusedStudentsOf r0 students = us1 @ u # us2 \<longrightarrow>
         (\<exists>r1 sa1 n1 st2.
            swapLoop distanceScoreOf randomUUID us1 (r0, sa0, n0) = Inr (r1, sa1, n1) \<and>
            swapUnused distanceScoreOf randomUUID u (r1, sa1, n1) = Inr st2 \<and>
            swapLoop distanceScoreOf randomUUID us2 st2 = Inr (r, sa, n) \<and>
            (st2 = (r1, sa1, n1) \<or>
             (\<exists>i x. i < length r1 \<and> match_rank (r1 ! i) = 2 \<and>
                1 < getCount sa1 (student_external_id (r1 ! i)) \<and>
                (\<forall>j<length r1. match_rank (r1 ! j) = 2 \<longrightarrow>
                   getCount sa1 (student_external_id (r1 ! j))
                     \<le> getCount sa1 (student_external_id (r1 ! i))) \<and>
                match_rank x = 2 \<and>
                student_external_id x = LocalStudent.contact_id u \<and>
                soldier_external_id x = soldier_external_id (r1 ! i) \<and>
                st2 = (r1[i := x],
                       sa1(LocalStudent.contact_id u \<mapsto>
                             getCount sa1 (LocalStudent.contact_id u) + 1),
                       Suc n1)))))"
proof -
  let ?ds = distanceScoreOf and ?rnd = randomUUID
  have sol0: "list_all (\<lambda>m. EnrichedMatch.soldier m \<noteq> None) r0"
    using assignAll_soldiers[of randomUUID matchesBySoldier students] assms by simp
  then have sh0: "sameShape r0 (r0, sa0, n0)" by (rule sameShape_refl)
  from finalPass_sameShape[OF sol0, of ?ds ?rnd students sa0 n0]
  obtain r sa n where fp: "finalPass ?ds ?rnd students (r0, sa0, n0) = Inr (r, sa, n)"
    and sh: "sameShape r0 (r, sa, n)"
    by (metis prod_cases3)
  have opt: "optimizeSecureMatches ?ds ?rnd matchesBySoldier students = Inr r"
    using fp assms by (simp add: optimizeSecureMatches_def)
  from sh have len: "length r = length r0" by (rule sameShape_length)
  have all2: "\<forall>i<length r0. match_rank (r ! i) = match_rank (r0 ! i) \<and>
                 soldier_external_id (r ! i) = soldier_external_id (r0 ! i) \<and>
                 (match_rank (r0 ! i) \<noteq> 2 \<longrightarrow> r ! i = r0 ! i)"
    using sameShape_nth[OF sh] by blast
  have frame1: "\<forall>i<length r0. match_rank (r0 ! i) = 1 \<longrightarrow> r ! i = r0 ! i"
    using all2 by simp
  have frame2: "\<forall>i<length r0. r ! i \<noteq> r0 ! i \<longrightarrow>
          match_rank (r0 ! i) = 2 \<and> match_rank (r ! i) = 2 \<and>
          soldier_external_id (r ! i) = soldier_external_id (r0 ! i)"
    using all2 by metis
  have whole: "swapLoop ?ds ?rnd (unusedStudentsOf r0 students) (r0, sa0, n0) = Inr (r, sa, n)"
    using fp by (simp add: finalPass_swapLoop)
  have calls: "n0 \<le> n \<and> n \<le> n0 + length (unusedStudentsOf r0 students)"
    using whole by (rule swapLoop_calls)
  have steps: "\<exists>r1 sa1 n1 st2.
            swapLoop ?ds ?rnd us1 (r0, sa0, n0) = Inr (r1, sa1, n1) \<and>
            swapUnused ?ds ?rnd u (r1, sa1, n1) = Inr st2 \<and>
            swapLoop ?ds ?rnd us2 st2 = Inr (r, sa, n) \<and>
            (st2 = (r1, sa1, n1) \<or>
             (\<exists>i x. i < length r1 \<and> match_rank (r1 ! i) = 2 \<and>
                1 < getCount sa1 (student_external_id (r1 ! i)) \<and>
                (\<forall>j<length r1. match_rank (r1 ! j) = 2 \<longrightarrow>
                   getCount sa1 (student_external_id (r1 ! j))
                     \<le> getCount sa1 (student_external_id (r1 ! i))) \<and>
                match_rank x = 2 \<and>
                student_external_id x = LocalStudent.contact_id u \<and>
                soldier_external_id x = soldier_external_id (r1 ! i) \<and>
                st2 = (r1[i := x],
                       sa1(LocalStudent.contact_id u \<mapsto>
                             getCount sa1 (LocalStudent.contact_id u) + 1),
                       Suc n1)))"
    if split: "unusedStudentsOf r0 students = us1 @ u # us2" for us1 u us2
  proof -
    from swapLoop_sameShape[OF sh0, of ?ds ?rnd us1]
    obtain r1 sa1 n1 where l1: "swapLoop ?ds ?rnd us1 (r0, sa0, n0) = Inr (r1, sa1, n1)"
      and sh1: "sameShape r0 (r1, sa1, n1)"
      by (metis prod_cases3)
    from whole split l1 have rest: "swapLoop ?ds ?rnd (u # us2) (r1, sa1, n1) = Inr (r, sa, n)"
      by (simp add: swapLoop_append)
    then obtain st2 where s2: "swapUnused ?ds ?rnd u (r1, sa1, n1) = Inr st2"
      and l2: "swapLoop ?ds ?rnd us2 st2 = Inr (r, sa, n)"
      by (auto split: sum.splits)
    from sh1 have sol1: "\<forall>m\<in>set r1. EnrichedMatch.soldier m \<noteq> None"
      by (simp add: sameShape_def list_all_iff)
    let ?D = "st2 = (r1, sa1, n1) \<or>
             (\<exists>i x. i < length r1 \<and> match_rank (r1 ! i) = 2 \<and>
                1 < getCount sa1 (student_external_id (r1 ! i)) \<and>
                (\<forall>j<length r1. match_rank (r1 ! j) = 2 \<longrightarrow>
                   getCount sa1 (student_external_id (r1 ! j))
                     \<le> getCount sa1 (student_external_id (r1 ! i))) \<and>
                match_rank x = 2 \<and>
                student_external_id x = LocalStudent.contact_id u \<and>
                soldier_external_id x = soldier_external_id (r1 ! i) \<and>
                st2 = (r1[i := x],
                       sa1(LocalStudent.contact_id u \<mapsto>
                             getCount sa1 (LocalStudent.contact_id u) + 1),
                       Suc n1))"
    from swapUnused_cases[OF sol1, of ?ds ?rnd u sa1 n1] have d: ?D
    proof
      assume "swapUnused ?ds ?rnd u (r1, sa1, n1) = Inr (r1, sa1, n1)"
      with s2 have "st2 = (r1, sa1, n1)" by simp
      then show ?thesis by (rule disjI1)
    next
      assume "\<exists>i x. i < length r1 \<and> match_rank (r1 ! i) = 2 \<and>
        1 < getCount sa1 (student_external_id (r1 ! i)) \<and>
        (\<forall>j<length r1. match_rank (r1 ! j) = 2 \<longrightarrow>
           getCount sa1 (student_external_id (r1 ! j)) \<le> getCount sa1 (student_external_id (r1 ! i))) \<and>
        swapUnused ?ds ?rnd u (r1, sa1, n1) =
          Inr (r1[i := x],
               sa1(LocalStudent.contact_id u \<mapsto> getCount sa1 (LocalStudent.contact_id u) + 1),
               Suc n1) \<and>
        student_external_id x = LocalStudent.contact_id u \<and>
        soldier_external_id x = soldier_external_id (r1 ! i) \<and>
        match_rank x = 2 \<and>
        EnrichedMatch.soldier x = EnrichedMatch.soldier (r1 ! i) \<and>
        EnrichedMatch.student x = Some u \<and> id' x = ?rnd n1 \<and> status x = suggested \<and>
        1 \<le> confidence_score x"
      then obtain i x where i: "i < length r1" and rk: "match_rank (r1 ! i) = 2"
        and over: "1 < getCount sa1 (student_external_id (r1 ! i))"
        and mx: "\<forall>j<length r1. match_rank (r1 ! j) = 2 \<longrightarrow>
           getCount sa1 (student_external_id (r1 ! j)) \<le> getCount sa1 (student_external_id (r1 ! i))"
        and eq: "swapUnused ?ds ?rnd u (r1, sa1, n1) =
          Inr (r1[i := x],
               sa1(LocalStudent.contact_id u \<mapsto> getCount sa1 (LocalStudent.contact_id u) + 1),
               Suc n1)"
        and xs: "student_external_id x = LocalStudent.contact_id u"
        and xo: "soldier_external_id x = soldier_external_id (r1 ! i)"
        and xr: "match_rank x = 2"
        by blast
      from eq s2 have st2: "st2 = (r1[i := x],
               sa1(LocalStudent.contact_id u \<mapsto> getCount sa1 (LocalStudent.contact_id u) + 1),
               Suc n1)"
        by simp
      show ?thesis
        by (rule disjI2, rule exI[of _ i], rule exI[of _ x], intro conjI)
           (fact i rk over mx xr xs xo st2)+
    qed
    show ?thesis
      by (rule exI[of _ r1], rule exI[of _ sa1], rule exI[of _ n1], rule exI[of _ st2], intro conjI)
         (fact l1 s2 l2 d)+
  qed
  have steps_all: "\<forall>us1 u us2. unusedStudentsOf r0 students = us1 @ u # us2 \<longrightarrow>
         (\<exists>r1 sa1 n1 st2.
            swapLoop ?ds ?rnd us1 (r0, sa0, n0) = Inr (r1, sa1, n1) \<and>
            swapUnused ?ds ?rnd u (r1, sa1, n1) = Inr st2 \<and>
            swapLoop ?ds ?rnd us2 st2 = Inr (r, sa, n) \<and>
            (st2 = (r1, sa1, n1) \<or>
             (\<exists>i x. i < length r1 \<and> match_rank (r1 ! i) = 2 \<and>
                1 < getCount sa1 (student_external_id (r1 ! i)) \<and>
                (\<forall>j<length r1. match_rank (r1 ! j) = 2 \<longrightarrow>
                   getCount sa1 (student_external_id (r1 ! j))
                     \<le> getCount sa1 (student_external_id (r1 ! i))) \<and>
                match_rank x = 2 \<and>
                student_external_id x = LocalStudent.contact_id u \<and>
                soldier_external_id x = soldier_external_id (r1 ! i) \<and>
                st2 = (r1[i := x],
                       sa1(LocalStudent.contact_id u \<mapsto>
                             getCount sa1 (LocalStudent.contact_id u) + 1),
                       Suc n1))))"
    by (intro allI impI) (rule steps)
  from calls have c1: "n0 \<le> n" and c2: "n \<le> n0 + length (unusedStudentsOf r0 students)"
    by simp_all
  show ?thesis
    by (rule exI[of _ r], rule exI[of _ sa], rule exI[of _ n], intro conjI)
       (fact fp opt len frame1 frame2 c1 c2 steps_all)+
qed

theorem rebalancing_frame_witness:
  "\<exists>r0 sa0 n0. assignAll uuids1 exampleMap [studentA, studentB, studentC] = (r0, sa0, n0) \<and>
     (\<exists>r sa n.
        finalPass exampleScore uuids1 [studentA, studentB, studentC] (r0, sa0, n0) = Inr (r, sa, n) \<and>
        optimizeSecureMatches exampleScore uuids1 exampleMap [studentA, studentB, studentC] = Inr r \<and>
        length r = length r0 \<and>
        (\<forall>i<length r0. match_rank (r0 ! i) = 1 \<longrightarrow> r ! i = r0 ! i) \<and>
        n0 \<le> n \<and> n \<le> n0 + length (unusedStudentsOf r0 [studentA, studentB, studentC]))"
proof -
  obtain r0 sa0 n0 where
    a: "assignAll uuids1 exampleMap [studentA, studentB, studentC] = (r0, sa0, n0)"
    by (cases "assignAll uuids1 exampleMap [studentA, studentB, studentC]") auto
  from rebalancing_frame[OF a, of exampleScore] a show ?thesis by blast
qed

section \<open>Assignments per soldier\<close>

lemma findAllSecureMatches_wfMap: "wfMap (findAllSecureMatches ds students soldiers)"
proof -
  have d: "distinct (map fst (findAllSecureMatches ds students soldiers))"
    unfolding findAllSecureMatches_def by (rule distinct_foldl_update) simp
  have "LocalSoldier.contact_id (MatchCandidate.soldier c) = k"
    if "(k, cs) \<in> set (findAllSecureMatches ds students soldiers)" "c \<in> set cs" for k cs c
  proof -
    from that(1) obtain sol where "k = LocalSoldier.contact_id sol"
      "cs = sort_key (\<lambda>c. - score c) (collectCandidates ds sol students)"
      unfolding findAllSecureMatches_def by (auto dest!: set_foldl_update)
    with that(2) collectCandidates_member(1)[of c ds sol students] show ?thesis by simp
  qed
  with d show ?thesis by (auto simp: wfMap_def)
qed

lemma distinct_map_sort_key: "distinct (map f (sort_key g xs)) = distinct (map f xs)"
proof -
  have "mset (map f (sort_key g xs)) = mset (map f xs)" by simp
  then show ?thesis by (rule mset_eq_imp_distinct_iff)
qed

text \<open>The block of one soldier: what \<^const>\<open>processSoldier\<close> appends under a consistent entry.\<close>

lemma processSoldier_block_wf:
  assumes "\<forall>c\<in>set cs. LocalSoldier.contact_id (MatchCandidate.soldier c) = k"
  shows "\<exists>new sa' n'. processSoldier rnd (r, sa, n) (k, cs) = (r @ new, sa', n') \<and>
      map match_rank new = [1..<Suc (length new)] \<and>
      length new = min 2 (card (candidateIds cs)) \<and>
      distinct (map student_external_id new) \<and>
      (\<forall>m\<in>set new. soldier_external_id m = k)"
proof -
  from processSoldier_block[of rnd r sa n k cs] obtain new sa' n' where
    b: "processSoldier rnd (r, sa, n) (k, cs) = (r @ new, sa', n')"
      "map match_rank new = [1..<Suc (length new)]"
      "length new = min 2 (card (candidateIds cs))"
      "distinct (map student_external_id new)"
      "\<forall>m\<in>set new. \<exists>c\<in>set cs. fromCandidate c m"
    by blast
  from b(5) assms have "\<forall>m\<in>set new. soldier_external_id m = k"
    by (auto simp: fromCandidate_def)
  with b show ?thesis by blast
qed








lemma example_wfMap: "wfMap exampleMap"
  by code_simp




section \<open>No pair twice\<close>

lemma distinct_map_filter_nth:
  "distinct (map f (filter P xs)) \<Longrightarrow> i < length xs \<Longrightarrow> j < length xs \<Longrightarrow>
     P (xs ! i) \<Longrightarrow> P (xs ! j) \<Longrightarrow> f (xs ! i) = f (xs ! j) \<Longrightarrow> i = j"
proof (induction xs arbitrary: i j)
  case Nil
  then show ?case by simp
next
  case (Cons a xs)
  have head: False if "P a" "k < length xs" "P (xs ! k)" "f a = f (xs ! k)" for k
  proof -
    from that(2,3) have "xs ! k \<in> set (filter P xs)" by simp
    then have "f (xs ! k) \<in> f ` set (filter P xs)" by (rule imageI)
    with that(4) have "f a \<in> f ` set (filter P xs)" by simp
    moreover from Cons.prems(1) that(1) have "f a \<notin> f ` set (filter P xs)" by simp
    ultimately show False by contradiction
  qed
  show ?case
  proof (cases i)
    case 0
    note i0 = this
    show ?thesis
    proof (cases j)
      case 0
      with i0 show ?thesis by simp
    next
      case (Suc j')
      with Cons.prems(3,4,5,6) i0 have "P a" "j' < length xs" "P (xs ! j')" "f a = f (xs ! j')"
        by simp_all
      from head[OF this] show ?thesis ..
    qed
  next
    case (Suc i')
    note iS = this
    show ?thesis
    proof (cases j)
      case 0
      with Cons.prems(2,4,5,6) iS have "P a" "i' < length xs" "P (xs ! i')" "f a = f (xs ! i')"
        by simp_all
      from head[OF this] show ?thesis ..
    next
      case (Suc j')
      from Cons.prems(1) have d: "distinct (map f (filter P xs))" by (simp split: if_splits)
      from Cons.prems(2-6) iS Suc have "i' < length xs" "j' < length xs" "P (xs ! i')" "P (xs ! j')"
        "f (xs ! i') = f (xs ! j')" by simp_all
      from Cons.IH[OF d this] iS Suc show ?thesis by simp
    qed
  qed
qed

lemma map_filter_update_same:
  "i < length xs \<Longrightarrow> P (xs ! i) \<Longrightarrow> P x \<Longrightarrow> f x = f (xs ! i) \<Longrightarrow>
     map f (filter P (xs[i := x])) = map f (filter P xs)"
proof (induction xs arbitrary: i)
  case Nil
  then show ?case by simp
next
  case (Cons a xs)
  show ?case
  proof (cases i)
    case 0
    with Cons.prems(2,3,4) have "P a" "P x" "f x = f a" by simp_all
    with 0 show ?thesis by simp
  next
    case (Suc i')
    with Cons.prems have "i' < length xs" "P (xs ! i')" "P x" "f x = f (xs ! i')" by simp_all
    from Cons.IH[OF this] Suc show ?thesis by simp
  qed
qed

lemma distinct_filter_le1:
  "distinct (map g xs) \<Longrightarrow> length (filter (\<lambda>x. g x = a) xs) \<le> 1"
proof (induction xs)
  case Nil
  then show ?case by simp
next
  case (Cons x xs)
  show ?case
  proof (cases "g x = a")
    case True
    with Cons.prems have "a \<notin> g ` set xs" by simp
    then have "\<forall>y\<in>set xs. g y \<noteq> a" by blast
    then have "filter (\<lambda>x. g x = a) xs = []" by (simp add: filter_empty_conv)
    with True show ?thesis by simp
  next
    case False
    with Cons show ?thesis by simp
  qed
qed

lemma distinct_map_short: "length xs \<le> 1 \<Longrightarrow> distinct (map f xs)"
  by (cases xs) auto

text \<open>The assignments that one soldier receives hold at most one of rank 2.\<close>

lemma block_rank2:
  assumes "map match_rank new = [1..<Suc (length new)]"
  shows "length (filter (\<lambda>m. match_rank m = 2) new) \<le> 1"
proof -
  have "distinct (map match_rank new)" using assms by simp
  then show ?thesis by (rule distinct_filter_le1)
qed

lemma foldl_process_distinct:
  assumes "\<forall>(k', cs)\<in>set es. \<forall>c\<in>set cs. LocalSoldier.contact_id (MatchCandidate.soldier c) = k'"
    and "distinct (map fst es)"
    and "\<forall>m\<in>set r. soldier_external_id m \<notin> fst ` set es"
    and "distinct (map pairOf r)"
    and "distinct (map soldier_external_id (filter (\<lambda>m. match_rank m = 2) r))"
  shows "distinct (map pairOf (fst (foldl (processSoldier rnd) (r, sa, n) es))) \<and>
         distinct (map soldier_external_id
           (filter (\<lambda>m. match_rank m = 2) (fst (foldl (processSoldier rnd) (r, sa, n) es))))"
  using assms
proof (induction es arbitrary: r sa n)
  case Nil
  then show ?case by simp
next
  case (Cons e es)
  obtain k1 cs1 where e: "e = (k1, cs1)" by (cases e) auto
  from Cons.prems(1) e have c1: "\<forall>c\<in>set cs1. LocalSoldier.contact_id (MatchCandidate.soldier c) = k1"
    and rest_wf: "\<forall>(k', cs)\<in>set es. \<forall>c\<in>set cs. LocalSoldier.contact_id (MatchCandidate.soldier c) = k'"
    by auto
  from Cons.prems(2) e have k1_new: "k1 \<notin> fst ` set es" and rest_d: "distinct (map fst es)"
    by auto
  from Cons.prems(3) e have r_k1: "\<forall>m\<in>set r. soldier_external_id m \<noteq> k1"
    and r_rest: "\<forall>m\<in>set r. soldier_external_id m \<notin> fst ` set es"
    by auto
  from processSoldier_block_wf[OF c1, of rnd r sa n] obtain new sa' n' where
    b: "processSoldier rnd (r, sa, n) (k1, cs1) = (r @ new, sa', n')"
      "map match_rank new = [1..<Suc (length new)]"
      "distinct (map student_external_id new)"
      "\<forall>m\<in>set new. soldier_external_id m = k1"
    by blast
  have step: "foldl (processSoldier rnd) (r, sa, n) (e # es)
                = foldl (processSoldier rnd) (r @ new, sa', n') es"
    using e b(1) by simp
  have new_pairs: "distinct (map pairOf new)"
  proof -
    have "map student_external_id new = map fst (map pairOf new)"
      by (simp add: pairOf_def o_def)
    with b(3) have "distinct (map fst (map pairOf new))" by simp
    then show ?thesis by (simp only: distinct_map)
  qed
  have disj: "set (map pairOf r) \<inter> set (map pairOf new) = {}"
    using r_k1 b(4) by (auto simp: pairOf_def)
  have p1: "distinct (map pairOf (r @ new))"
    using Cons.prems(4) new_pairs disj by simp
  have new_r2: "distinct (map soldier_external_id (filter (\<lambda>m. match_rank m = 2) new))"
    by (rule distinct_map_short, rule block_rank2, rule b(2))
  have disj2: "set (map soldier_external_id (filter (\<lambda>m. match_rank m = 2) r))
                 \<inter> set (map soldier_external_id (filter (\<lambda>m. match_rank m = 2) new)) = {}"
    using r_k1 b(4) by auto
  have p2: "distinct (map soldier_external_id (filter (\<lambda>m. match_rank m = 2) (r @ new)))"
    using Cons.prems(5) new_r2 disj2 by simp
  have p3: "\<forall>m\<in>set (r @ new). soldier_external_id m \<notin> fst ` set es"
    using r_rest b(4) k1_new by auto
  from Cons.IH[OF rest_wf rest_d p3 p1 p2, of sa' n'] step show ?case by simp
qed

lemma assignAll_distinct:
  assumes "wfMap m"
  shows "distinct (map pairOf (fst (assignAll rnd m students)))"
    and "distinct (map soldier_external_id
           (filter (\<lambda>x. match_rank x = 2) (fst (assignAll rnd m students))))"
proof -
  let ?es = "sort_key (\<lambda>(soldierId, candidates). length candidates) m"
  from assms have 1: "\<forall>(k', cs)\<in>set ?es. \<forall>c\<in>set cs.
      LocalSoldier.contact_id (MatchCandidate.soldier c) = k'"
    by (simp add: wfMap_def)
  from assms have 2: "distinct (map fst ?es)"
    by (simp add: wfMap_def distinct_map_sort_key)
  from foldl_process_distinct[OF 1 2, of "[]" rnd "initialAssignments students" 0]
  show "distinct (map pairOf (fst (assignAll rnd m students)))"
    and "distinct (map soldier_external_id
           (filter (\<lambda>x. match_rank x = 2) (fst (assignAll rnd m students))))"
    by (simp_all add: assignAll_def)
qed

lemma pairsInv_step:
  assumes inv: "pairsInv U st" and u: "LocalStudent.contact_id u \<notin> U"
  shows "\<exists>st'. swapUnused ds rnd u st = Inr st' \<and> pairsInv U st'"
proof -
  obtain r sa n where st: "st = (r, sa, n)" by (cases st) auto
  from inv st have sol: "\<forall>m\<in>set r. EnrichedMatch.soldier m \<noteq> None"
    and D: "distinct (map pairOf r)"
    and J: "distinct (map soldier_external_id (filter (\<lambda>m. match_rank m = 2) r))"
    and K: "\<forall>m\<in>set r. student_external_id m \<notin> U \<longrightarrow> match_rank m = 2"
    by (simp_all add: pairsInv_def)
  from swapUnused_cases[OF sol, of ds rnd u sa n]
  show ?thesis
  proof
    assume "swapUnused ds rnd u (r, sa, n) = Inr (r, sa, n)"
    with inv st show ?thesis by auto
  next
    assume "\<exists>i x. i < length r \<and> match_rank (r ! i) = 2 \<and>
        1 < getCount sa (student_external_id (r ! i)) \<and>
        (\<forall>j<length r. match_rank (r ! j) = 2 \<longrightarrow>
           getCount sa (student_external_id (r ! j)) \<le> getCount sa (student_external_id (r ! i))) \<and>
        swapUnused ds rnd u (r, sa, n) =
          Inr (r[i := x],
               sa(LocalStudent.contact_id u \<mapsto> getCount sa (LocalStudent.contact_id u) + 1),
               Suc n) \<and>
        student_external_id x = LocalStudent.contact_id u \<and>
        soldier_external_id x = soldier_external_id (r ! i) \<and>
        match_rank x = 2 \<and>
        EnrichedMatch.soldier x = EnrichedMatch.soldier (r ! i) \<and>
        EnrichedMatch.student x = Some u \<and> id' x = rnd n \<and> status x = suggested \<and>
        1 \<le> confidence_score x"
    then obtain i x where i: "i < length r" and rk: "match_rank (r ! i) = 2"
      and eq: "swapUnused ds rnd u (r, sa, n) =
          Inr (r[i := x],
               sa(LocalStudent.contact_id u \<mapsto> getCount sa (LocalStudent.contact_id u) + 1),
               Suc n)"
      and xs: "student_external_id x = LocalStudent.contact_id u"
      and xo: "soldier_external_id x = soldier_external_id (r ! i)"
      and xr: "match_rank x = 2"
      and xsol: "EnrichedMatch.soldier x = EnrichedMatch.soldier (r ! i)"
      by blast
    have mem: "m = x \<or> m \<in> set r" if "m \<in> set (r[i := x])" for m
      using that set_update_subset_insert[of r i x] by auto
    have "EnrichedMatch.soldier x \<noteq> None" using xsol sol i by simp
    with sol mem have sol': "\<forall>m\<in>set (r[i := x]). EnrichedMatch.soldier m \<noteq> None" by blast
    have K': "\<forall>m\<in>set (r[i := x]). student_external_id m \<notin> U \<longrightarrow> match_rank m = 2"
      using K xr mem by blast
    have J': "distinct (map soldier_external_id (filter (\<lambda>m. match_rank m = 2) (r[i := x])))"
      using map_filter_update_same[of i r "\<lambda>m. match_rank m = 2" x soldier_external_id, OF i rk xr xo] J
      by simp
    have fresh: "pairOf x \<notin> set (map pairOf r) - {map pairOf r ! i}"
    proof
      assume "pairOf x \<in> set (map pairOf r) - {map pairOf r ! i}"
      then obtain m where m: "m \<in> set r" "pairOf m = pairOf x" "pairOf m \<noteq> pairOf (r ! i)"
        using i by auto
      from m(1) obtain j where j: "j < length r" "r ! j = m" by (auto simp: in_set_conv_nth)
      from m(2) xs xo have ms: "student_external_id m = LocalStudent.contact_id u"
        and mo: "soldier_external_id m = soldier_external_id (r ! i)"
        by (simp_all add: pairOf_def)
      from ms u K m(1) have "match_rank m = 2" by simp
      with j rk mo have "j = i"
        using distinct_map_filter_nth[OF J j(1) i, of ] by simp
      with j m(3) show False by simp
    qed
    have D': "distinct (map pairOf (r[i := x]))"
      using distinct_list_update[OF D fresh] by (simp add: map_update)
    from eq st sol' D' J' K' show ?thesis by (simp add: pairsInv_def)
  qed
qed

lemma swapLoop_pairsInv:
  assumes "pairsInv U st" and "\<forall>u\<in>set us. LocalStudent.contact_id u \<notin> U"
  shows "\<exists>st'. swapLoop ds rnd us st = Inr st' \<and> pairsInv U st'"
  using assms(1)
proof (rule swapLoop_invariant)
  fix u st1
  assume "u \<in> set us" and "pairsInv U st1"
  with assms(2) show "\<exists>st'. swapUnused ds rnd u st1 = Inr st' \<and> pairsInv U st'"
    by (intro pairsInv_step) auto
qed

lemma unusedStudentsOf_fresh:
  "\<forall>u\<in>set (unusedStudentsOf r students).
     LocalStudent.contact_id u \<notin> student_external_id ` set r"
  by (simp add: unusedStudentsOf_def Let_def)

lemma optimizeSecureMatches_distinct:
  assumes "wfMap m"
  shows "\<exists>r. optimizeSecureMatches ds rnd m students = Inr r \<and> distinct (map pairOf r)"
proof -
  obtain r0 sa0 n0 where a: "assignAll rnd m students = (r0, sa0, n0)"
    by (cases "assignAll rnd m students") auto
  let ?U = "student_external_id ` set r0"
  have "pairsInv ?U (r0, sa0, n0)"
    using assignAll_distinct[OF assms, of rnd students] assignAll_soldiers[of rnd m students] a
    by (simp add: pairsInv_def list_all_iff)
  from swapLoop_pairsInv[OF this unusedStudentsOf_fresh, where ds = ds and rnd = rnd and students1 = students]
  obtain st' where "finalPass ds rnd students (r0, sa0, n0) = Inr st'" "pairsInv ?U st'"
    by (auto simp: finalPass_swapLoop)
  with a show ?thesis
    by (cases st') (simp add: optimizeSecureMatches_def pairsInv_def)
qed

text \<open>
  Claim C5. The assignment list that \<^verbatim>\<open>optimizeSecureMatches\<close> returns, final pass
  included, has no (student identifier, soldier identifier) pair twice: for every list of
  students and of soldiers, on the candidate lists of \<^verbatim>\<open>findAllSecureMatches\<close>, and more
  generally on every map keyed by the soldiers' identifiers (\<^const>\<open>wfMap\<close>). In particular no
  soldier has the same student at rank 1 and at rank 2.
\<close>

theorem no_duplicate_pairs:
  "(wfMap matchesBySoldier \<longrightarrow>
      (\<exists>r. optimizeSecureMatches distanceScoreOf randomUUID matchesBySoldier students = Inr r \<and>
           distinct (map pairOf r))) \<and>
   (\<exists>r. optimizeSecureMatches distanceScoreOf randomUUID
           (findAllSecureMatches distanceScoreOf students soldiers) students = Inr r \<and>
        distinct (map pairOf r))"
  using optimizeSecureMatches_distinct findAllSecureMatches_wfMap by blast

theorem no_duplicate_pairs_witness:
  "wfMap exampleMap \<and>
   (\<exists>r. optimizeSecureMatches exampleScore uuids1 exampleMap [studentA, studentB, studentC] = Inr r \<and>
        distinct (map pairOf r))"
  using no_duplicate_pairs[of exampleMap exampleScore uuids1 "[studentA, studentB, studentC]" "[]"]
    example_wfMap
  by blast

section \<open>The used students stay used\<close>

lemma getCount_update: "getCount (sa(k \<mapsto> v)) h = (if h = k then v else getCount sa h)"
  by (simp add: getCount_def)

lemma rank1Count_pos:
  "0 < rank1Count r h \<Longrightarrow> \<exists>k<length r. match_rank (r ! k) = 1 \<and> student_external_id (r ! k) = h"
proof -
  assume "0 < rank1Count r h"
  then have "filter (\<lambda>m. match_rank m = 1 \<and> student_external_id m = h) r \<noteq> []"
    by (simp add: rank1Count_def)
  then obtain m where "m \<in> set r" "match_rank m = 1" "student_external_id m = h"
    by (auto simp: filter_empty_conv)
  then show ?thesis by (auto simp: in_set_conv_nth)
qed

lemma keepInv_step:
  assumes inv: "keepInv r0 sa0 N st"
    and cnt0: "\<forall>h. getCount sa0 h = rank1Count r0 h"
    and u: "LocalStudent.contact_id u \<notin> student_external_id ` set r0"
    and uN: "LocalStudent.contact_id u \<in> N"
  shows "\<exists>st'. swapUnused ds rnd u st = Inr st' \<and> keepInv r0 sa0 N st'"
proof -
  let ?U = "student_external_id ` set r0"
  obtain r sa n where st: "st = (r, sa, n)" by (cases st) auto
  from inv st have sh: "sameShape r0 (r, sa, n)"
    and cnt: "\<forall>h\<in>?U. getCount sa h = getCount sa0 h"
    and keep: "?U \<subseteq> student_external_id ` set r"
    and bound: "student_external_id ` set r \<subseteq> ?U \<union> N"
    by (simp_all add: keepInv_def)
  from sh have sol: "\<forall>m\<in>set r. EnrichedMatch.soldier m \<noteq> None"
    by (simp add: sameShape_def list_all_iff)
  from sh have len: "length r = length r0" by (rule sameShape_length)
  from sameShape_step[OF sh[folded st], of ds rnd u] st
  obtain st' where s': "swapUnused ds rnd u (r, sa, n) = Inr st'" and sh': "sameShape r0 st'"
    by auto
  from swapUnused_cases[OF sol, of ds rnd u sa n]
  show ?thesis
  proof
    assume "swapUnused ds rnd u (r, sa, n) = Inr (r, sa, n)"
    with inv st show ?thesis by auto
  next
    assume "\<exists>i x. i < length r \<and> match_rank (r ! i) = 2 \<and>
        1 < getCount sa (student_external_id (r ! i)) \<and>
        (\<forall>j<length r. match_rank (r ! j) = 2 \<longrightarrow>
           getCount sa (student_external_id (r ! j)) \<le> getCount sa (student_external_id (r ! i))) \<and>
        swapUnused ds rnd u (r, sa, n) =
          Inr (r[i := x],
               sa(LocalStudent.contact_id u \<mapsto> getCount sa (LocalStudent.contact_id u) + 1),
               Suc n) \<and>
        student_external_id x = LocalStudent.contact_id u \<and>
        soldier_external_id x = soldier_external_id (r ! i) \<and>
        match_rank x = 2 \<and>
        EnrichedMatch.soldier x = EnrichedMatch.soldier (r ! i) \<and>
        EnrichedMatch.student x = Some u \<and> id' x = rnd n \<and> status x = suggested \<and>
        1 \<le> confidence_score x"
    then obtain i x where i: "i < length r" and rk: "match_rank (r ! i) = 2"
      and over: "1 < getCount sa (student_external_id (r ! i))"
      and eq: "swapUnused ds rnd u (r, sa, n) =
          Inr (r[i := x],
               sa(LocalStudent.contact_id u \<mapsto> getCount sa (LocalStudent.contact_id u) + 1),
               Suc n)"
      and xs: "student_external_id x = LocalStudent.contact_id u"
      by blast
    let ?sa' = "sa(LocalStudent.contact_id u \<mapsto> getCount sa (LocalStudent.contact_id u) + 1)"
    from eq s' have st': "st' = (r[i := x], ?sa', Suc n)" by simp
    have cnt': "\<forall>h\<in>?U. getCount ?sa' h = getCount sa0 h"
    proof
      fix h assume h: "h \<in> ?U"
      with u have "h \<noteq> LocalStudent.contact_id u" by blast
      moreover from cnt h have "getCount sa h = getCount sa0 h" by blast
      ultimately show "getCount ?sa' h = getCount sa0 h" by (simp add: getCount_update)
    qed
    have keep': "?U \<subseteq> student_external_id ` set (r[i := x])"
    proof
      fix h assume h: "h \<in> ?U"
      with keep have "h \<in> student_external_id ` set r" by blast
      then obtain m where "m \<in> set r" "student_external_id m = h" by blast
      then obtain j where j: "j < length r" "student_external_id (r ! j) = h"
        by (metis in_set_conv_nth)
      show "h \<in> student_external_id ` set (r[i := x])"
      proof (cases "j = i")
        case False
        with j i have "(r[i := x]) ! j = r ! j" "j < length (r[i := x])" by simp_all
        then have "r ! j \<in> set (r[i := x])" by (metis nth_mem)
        with j(2) show ?thesis by (metis imageI)
      next
        case True
        with j over have "1 < getCount sa h" by simp
        moreover from cnt h have "getCount sa h = getCount sa0 h" by blast
        ultimately have "0 < rank1Count r0 h" using cnt0 by simp
        from rank1Count_pos[OF this] obtain k where k: "k < length r0"
          "match_rank (r0 ! k) = 1" "student_external_id (r0 ! k) = h"
          by blast
        from sameShape_nth[OF sh k(1)] k(2) have rk_eq: "r ! k = r0 ! k" by simp
        with k(2) rk have "k \<noteq> i" by auto
        with k(1) len have "(r[i := x]) ! k = r ! k" "k < length (r[i := x])" by simp_all
        then have "r ! k \<in> set (r[i := x])" by (metis nth_mem)
        with rk_eq k(3) show ?thesis by (metis imageI)
      qed
    qed
    have bound': "student_external_id ` set (r[i := x]) \<subseteq> ?U \<union> N"
    proof
      fix h assume "h \<in> student_external_id ` set (r[i := x])"
      then obtain m where m: "m \<in> set (r[i := x])" "h = student_external_id m" by auto
      from m(1) set_update_subset_insert[of r i x] have "m = x \<or> m \<in> set r" by auto
      with m(2) xs uN bound show "h \<in> ?U \<union> N" by auto
    qed
    have "keepInv r0 sa0 N (r[i := x], ?sa', Suc n)"
      unfolding keepInv_def using sh'[unfolded st'] cnt' keep' bound' by simp
    with eq st show ?thesis by blast
  qed
qed

lemma finalPass_keeps_used:
  assumes a: "assignAll rnd m students = (r0, sa0, n0)"
  shows "\<exists>r sa n. finalPass ds rnd students (r0, sa0, n0) = Inr (r, sa, n) \<and>
      student_external_id ` set r0 \<subseteq> student_external_id ` set r \<and>
      student_external_id ` set r \<subseteq>
        student_external_id ` set r0 \<union> LocalStudent.contact_id ` set (unusedStudentsOf r0 students)"
proof -
  let ?N = "LocalStudent.contact_id ` set (unusedStudentsOf r0 students)"
  have cnt0: "\<forall>h. getCount sa0 h = rank1Count r0 h"
    using assignAll_counts[OF a] by simp
  have "list_all (\<lambda>m. EnrichedMatch.soldier m \<noteq> None) r0"
    using assignAll_soldiers[of rnd m students] a by simp
  then have "sameShape r0 (r0, sa0, n0)" by (rule sameShape_refl)
  then have inv0: "keepInv r0 sa0 ?N (r0, sa0, n0)" by (simp add: keepInv_def)
  have "\<exists>st'. swapLoop ds rnd (unusedStudentsOf r0 students) (r0, sa0, n0) = Inr st' \<and>
          keepInv r0 sa0 ?N st'"
    using inv0
  proof (rule swapLoop_invariant)
    fix u st1
    assume u: "u \<in> set (unusedStudentsOf r0 students)" and i1: "keepInv r0 sa0 ?N st1"
    from u unusedStudentsOf_fresh[of r0 students]
    have "LocalStudent.contact_id u \<notin> student_external_id ` set r0" by blast
    moreover from u have "LocalStudent.contact_id u \<in> ?N" by (rule imageI)
    ultimately show "\<exists>st'. swapUnused ds rnd u st1 = Inr st' \<and> keepInv r0 sa0 ?N st'"
      using i1 cnt0 by (intro keepInv_step)
  qed
  then obtain st' where "finalPass ds rnd students (r0, sa0, n0) = Inr st'"
    "keepInv r0 sa0 ?N st'"
    by (auto simp: finalPass_swapLoop)
  then show ?thesis by (cases st') (simp add: keepInv_def)
qed

lemma swapLoop_grow:
  assumes "\<forall>m\<in>set r. EnrichedMatch.soldier m \<noteq> None"
    and "\<forall>h. 1 < getCount sa h \<longrightarrow> (\<exists>m\<in>set r. match_rank m = 1 \<and> student_external_id m = h)"
    and "\<forall>h. h \<notin> student_external_id ` set r \<longrightarrow> getCount sa h = 0"
    and "\<forall>u\<in>set us. LocalStudent.contact_id u \<notin> student_external_id ` set r"
    and "distinct (map LocalStudent.contact_id us)"
  shows "\<exists>r' sa' n'. swapLoop ds rnd us (r, sa, n) = Inr (r', sa', n') \<and>
           n \<le> n' \<and> card (student_external_id ` set r') = card (student_external_id ` set r) + (n' - n)"
  using assms
proof (induction us arbitrary: r sa n)
  case Nil
  then show ?case by simp
next
  case (Cons u us)
  note sol = Cons.prems(1) and A2 = Cons.prems(2) and A3 = Cons.prems(3)
  from Cons.prems(4) have u_new: "LocalStudent.contact_id u \<notin> student_external_id ` set r"
    and rest_new: "\<forall>u'\<in>set us. LocalStudent.contact_id u' \<notin> student_external_id ` set r"
    by simp_all
  from Cons.prems(5) have u_notin: "LocalStudent.contact_id u \<notin> LocalStudent.contact_id ` set us"
    and rest_d: "distinct (map LocalStudent.contact_id us)"
    by simp_all
  from u_notin have u_other: "\<forall>u'\<in>set us. LocalStudent.contact_id u' \<noteq> LocalStudent.contact_id u"
    by (metis imageI)
  from swapUnused_cases[OF sol, of ds rnd u sa n]
  show ?case
  proof
    assume same: "swapUnused ds rnd u (r, sa, n) = Inr (r, sa, n)"
    from Cons.IH[OF sol A2 A3 rest_new rest_d, of n] same show ?thesis by simp
  next
    assume "\<exists>i x. i < length r \<and> match_rank (r ! i) = 2 \<and>
        1 < getCount sa (student_external_id (r ! i)) \<and>
        (\<forall>j<length r. match_rank (r ! j) = 2 \<longrightarrow>
           getCount sa (student_external_id (r ! j)) \<le> getCount sa (student_external_id (r ! i))) \<and>
        swapUnused ds rnd u (r, sa, n) =
          Inr (r[i := x],
               sa(LocalStudent.contact_id u \<mapsto> getCount sa (LocalStudent.contact_id u) + 1),
               Suc n) \<and>
        student_external_id x = LocalStudent.contact_id u \<and>
        soldier_external_id x = soldier_external_id (r ! i) \<and>
        match_rank x = 2 \<and>
        EnrichedMatch.soldier x = EnrichedMatch.soldier (r ! i) \<and>
        EnrichedMatch.student x = Some u \<and> id' x = rnd n \<and> status x = suggested \<and>
        1 \<le> confidence_score x"
    then obtain i x where i: "i < length r" and rk: "match_rank (r ! i) = 2"
      and over: "1 < getCount sa (student_external_id (r ! i))"
      and eq: "swapUnused ds rnd u (r, sa, n) =
          Inr (r[i := x],
               sa(LocalStudent.contact_id u \<mapsto> getCount sa (LocalStudent.contact_id u) + 1),
               Suc n)"
      and xs: "student_external_id x = LocalStudent.contact_id u"
      and xr: "match_rank x = 2"
      and xsol: "EnrichedMatch.soldier x = EnrichedMatch.soldier (r ! i)"
      by blast
    let ?r1 = "r[i := x]"
    let ?sa1 = "sa(LocalStudent.contact_id u \<mapsto> getCount sa (LocalStudent.contact_id u) + 1)"
    have mem: "m = x \<or> m \<in> set r" if "m \<in> set ?r1" for m
      using that set_update_subset_insert[of r i x] by auto
    have stay: "m \<in> set ?r1" if "m \<in> set r" "match_rank m = 1" for m
    proof -
      from that(1) obtain k where k: "k < length r" "r ! k = m" by (metis in_set_conv_nth)
      with that(2) rk have "k \<noteq> i" by auto
      with k have "?r1 ! k = m" "k < length ?r1" by simp_all
      then show ?thesis by (metis nth_mem)
    qed
    have x_in: "x \<in> set ?r1" using i by (rule set_update_memI)
    have ids: "student_external_id ` set ?r1 = insert (LocalStudent.contact_id u) (student_external_id ` set r)"
    proof
      show "student_external_id ` set ?r1 \<subseteq> insert (LocalStudent.contact_id u) (student_external_id ` set r)"
        using mem xs by auto
    next
      show "insert (LocalStudent.contact_id u) (student_external_id ` set r) \<subseteq> student_external_id ` set ?r1"
      proof
        fix h assume "h \<in> insert (LocalStudent.contact_id u) (student_external_id ` set r)"
        then consider "h = LocalStudent.contact_id u" | "h \<in> student_external_id ` set r" by blast
        then show "h \<in> student_external_id ` set ?r1"
        proof cases
          case 1
          with xs x_in show ?thesis by (metis imageI)
        next
          case 2
          then obtain m where m: "m \<in> set r" "student_external_id m = h" by blast
          then obtain j where j: "j < length r" "r ! j = m" by (metis in_set_conv_nth)
          show ?thesis
          proof (cases "j = i")
            case False
            with j have "?r1 ! j = m" "j < length ?r1" by simp_all
            then have "m \<in> set ?r1" by (metis nth_mem)
            with m(2) show ?thesis by (metis imageI)
          next
            case True
            with j m(2) over have "1 < getCount sa h" by simp
            with A2 obtain m1 where m1: "m1 \<in> set r" "match_rank m1 = 1" "student_external_id m1 = h"
              by blast
            from stay[OF m1(1,2)] m1(3) show ?thesis by (metis imageI)
          qed
        qed
      qed
    qed
    have card1: "card (student_external_id ` set ?r1) = Suc (card (student_external_id ` set r))"
      using u_new by (simp add: ids)
    have "EnrichedMatch.soldier x \<noteq> None" using xsol sol i by simp
    with sol mem have sol1: "\<forall>m\<in>set ?r1. EnrichedMatch.soldier m \<noteq> None" by blast
    have cu: "getCount sa (LocalStudent.contact_id u) = 0" using A3 u_new by blast
    have A2': "\<forall>h. 1 < getCount ?sa1 h \<longrightarrow> (\<exists>m\<in>set ?r1. match_rank m = 1 \<and> student_external_id m = h)"
    proof (intro allI impI)
      fix h assume h: "1 < getCount ?sa1 h"
      with cu have "h \<noteq> LocalStudent.contact_id u" by (auto simp: getCount_update)
      with h have "1 < getCount sa h" by (simp add: getCount_update)
      with A2 obtain m1 where m1: "m1 \<in> set r" "match_rank m1 = 1" "student_external_id m1 = h"
        by blast
      from stay[OF m1(1,2)] m1(2,3)
      show "\<exists>m\<in>set ?r1. match_rank m = 1 \<and> student_external_id m = h" by blast
    qed
    have A3': "\<forall>h. h \<notin> student_external_id ` set ?r1 \<longrightarrow> getCount ?sa1 h = 0"
    proof (intro allI impI)
      fix h assume "h \<notin> student_external_id ` set ?r1"
      with ids have "h \<noteq> LocalStudent.contact_id u" "h \<notin> student_external_id ` set r" by auto
      with A3 show "getCount ?sa1 h = 0" by (simp add: getCount_update)
    qed
    have A4': "\<forall>u'\<in>set us. LocalStudent.contact_id u' \<notin> student_external_id ` set ?r1"
      using rest_new u_other by (simp add: ids)
    from Cons.IH[OF sol1 A2' A3' A4' rest_d, of "Suc n"]
    obtain r' sa' n' where l: "swapLoop ds rnd us (?r1, ?sa1, Suc n) = Inr (r', sa', n')"
      and le: "Suc n \<le> n'"
      and c: "card (student_external_id ` set r') = card (student_external_id ` set ?r1) + (n' - Suc n)"
      by blast
    from eq l have "swapLoop ds rnd (u # us) (r, sa, n) = Inr (r', sa', n')" by simp
    moreover from le have "n \<le> n'" by simp
    moreover from c card1 le
    have "card (student_external_id ` set r') = card (student_external_id ` set r) + (n' - n)"
      by simp
    ultimately show ?thesis by blast
  qed
qed

lemma finalPass_grows:
  assumes a: "assignAll rnd m students = (r0, sa0, n0)"
    and d: "distinct (map LocalStudent.contact_id students)"
  shows "\<exists>r sa n. finalPass ds rnd students (r0, sa0, n0) = Inr (r, sa, n) \<and> n0 \<le> n \<and>
      card (student_external_id ` set r) = card (student_external_id ` set r0) + (n - n0)"
proof -
  have cnt0: "\<And>h. getCount sa0 h = rank1Count r0 h"
    using assignAll_counts[OF a] by simp
  have sol: "\<forall>m\<in>set r0. EnrichedMatch.soldier m \<noteq> None"
    using assignAll_soldiers[of rnd m students] a by (simp add: list_all_iff)
  have A2: "\<forall>h. 1 < getCount sa0 h \<longrightarrow> (\<exists>m\<in>set r0. match_rank m = 1 \<and> student_external_id m = h)"
  proof (intro allI impI)
    fix h assume "1 < getCount sa0 h"
    then have "0 < rank1Count r0 h" by (simp add: cnt0)
    from rank1Count_pos[OF this]
    show "\<exists>m\<in>set r0. match_rank m = 1 \<and> student_external_id m = h" by (metis nth_mem)
  qed
  have A3: "\<forall>h. h \<notin> student_external_id ` set r0 \<longrightarrow> getCount sa0 h = 0"
  proof (intro allI impI)
    fix h assume "h \<notin> student_external_id ` set r0"
    then have "filter (\<lambda>m. match_rank m = 1 \<and> student_external_id m = h) r0 = []"
      by (auto simp: filter_empty_conv)
    then show "getCount sa0 h = 0" by (simp add: cnt0 rank1Count_def)
  qed
  have A5: "distinct (map LocalStudent.contact_id (unusedStudentsOf r0 students))"
    using d by (simp add: unusedStudentsOf_def Let_def distinct_map_filter)
  from swapLoop_grow[OF sol A2 A3 unusedStudentsOf_fresh A5, of ds rnd n0]
  show ?thesis by (simp add: finalPass_swapLoop)
qed

text \<open>
  Claim C10. Every student that holds an assignment when the final pass starts holds one
  when it ends, and a student that holds one at the end either held one at the start or
  was an unused student of the input. When the pass starts the assignment count of a
  student is the number of its rank-1 assignments, so a holder that is replaced (count
  above 1) keeps a rank-1 assignment. When the students' identifiers are distinct, every
  swap (one call of \<^verbatim>\<open>crypto.randomUUID\<close>, counted by \<open>n - n0\<close>) adds exactly one student to
  the set of students that hold an assignment.
\<close>

theorem rebalancing_keeps_students:
  assumes "assignAll randomUUID matchesBySoldier students = (r0, sa0, n0)"
  shows "\<exists>r sa n.
      finalPass distanceScoreOf randomUUID students (r0, sa0, n0) = Inr (r, sa, n) \<and>
      optimizeSecureMatches distanceScoreOf randomUUID matchesBySoldier students = Inr r \<and>
      student_external_id ` set r0 \<subseteq> student_external_id ` set r \<and>
      student_external_id ` set r \<subseteq>
        student_external_id ` set r0 \<union> LocalStudent.contact_id ` set (unusedStudentsOf r0 students) \<and>
      (\<forall>h. getCount sa0 h = rank1Count r0 h) \<and>
      (distinct (map LocalStudent.contact_id students) \<longrightarrow>
         n0 \<le> n \<and>
         card (student_external_id ` set r) = card (student_external_id ` set r0) + (n - n0))"
proof -
  from finalPass_keeps_used[OF assms, of distanceScoreOf]
  obtain r sa n where fp: "finalPass distanceScoreOf randomUUID students (r0, sa0, n0) = Inr (r, sa, n)"
    and keep: "student_external_id ` set r0 \<subseteq> student_external_id ` set r"
    and bound: "student_external_id ` set r \<subseteq>
        student_external_id ` set r0 \<union> LocalStudent.contact_id ` set (unusedStudentsOf r0 students)"
    by blast
  have opt: "optimizeSecureMatches distanceScoreOf randomUUID matchesBySoldier students = Inr r"
    using fp assms by (simp add: optimizeSecureMatches_def)
  have cnt: "\<forall>h. getCount sa0 h = rank1Count r0 h"
    using assignAll_counts[OF assms] by simp
  have grow: "n0 \<le> n \<and>
         card (student_external_id ` set r) = card (student_external_id ` set r0) + (n - n0)"
    if "distinct (map LocalStudent.contact_id students)"
    using finalPass_grows[OF assms that, of distanceScoreOf] fp by simp
  show ?thesis
    by (intro exI[of _ r] exI[of _ sa] exI[of _ n] conjI impI fp opt keep bound cnt)
       (simp_all add: grow)
qed

lemma example_students_distinct:
  "distinct (map LocalStudent.contact_id [studentA, studentB, studentC])"
  by (simp add: studentA_def studentB_def studentC_def exampleStudent_def)

theorem rebalancing_keeps_students_witness:
  "\<exists>r0 sa0 n0. assignAll uuids1 exampleMap [studentA, studentB, studentC] = (r0, sa0, n0) \<and>
     distinct (map LocalStudent.contact_id [studentA, studentB, studentC]) \<and>
     (\<exists>r sa n.
        finalPass exampleScore uuids1 [studentA, studentB, studentC] (r0, sa0, n0) = Inr (r, sa, n) \<and>
        student_external_id ` set r0 \<subseteq> student_external_id ` set r \<and>
        n0 \<le> n \<and>
        card (student_external_id ` set r) = card (student_external_id ` set r0) + (n - n0))"
proof -
  obtain r0 sa0 n0 where
    a: "assignAll uuids1 exampleMap [studentA, studentB, studentC] = (r0, sa0, n0)"
    by (cases "assignAll uuids1 exampleMap [studentA, studentB, studentC]") auto
  from rebalancing_keeps_students[OF a, of exampleScore] example_students_distinct
  obtain r sa n where
    "finalPass exampleScore uuids1 [studentA, studentB, studentC] (r0, sa0, n0) = Inr (r, sa, n)"
    "student_external_id ` set r0 \<subseteq> student_external_id ` set r"
    "n0 \<le> n"
    "card (student_external_id ` set r) = card (student_external_id ` set r0) + (n - n0)"
    by blast
  with a example_students_distinct show ?thesis by blast
qed

lemma example_swap:
  "map (\<lambda>m. (student_external_id m, soldier_external_id m, match_rank m))
     (fst (assignAll uuids1 exampleMap [studentA, studentB, studentC])) =
     [(''A'', ''s1'', 1), (''B'', ''s1'', 2), (''B'', ''s2'', 1), (''A'', ''s2'', 2),
      (''A'', ''s3'', 1), (''B'', ''s3'', 2)]"
  "map (\<lambda>m. (student_external_id m, soldier_external_id m, match_rank m))
     (projr (optimizeSecureMatches exampleScore uuids1 exampleMap [studentA, studentB, studentC])) =
     [(''A'', ''s1'', 1), (''B'', ''s1'', 2), (''B'', ''s2'', 1), (''C'', ''s2'', 2),
      (''A'', ''s3'', 1), (''B'', ''s3'', 2)]"
  by code_simp+

section \<open>Determinism\<close>

lemma forgetId_simps [simp]:
  "student_external_id (forgetId m) = student_external_id m"
  "soldier_external_id (forgetId m) = soldier_external_id m"
  "match_rank (forgetId m) = match_rank m"
  "confidence_score (forgetId m) = confidence_score m"
  "EnrichedMatch.soldier (forgetId m) = EnrichedMatch.soldier m"
  by (simp_all add: forgetId_def)

lemma stripState_simp [simp]: "stripState (r, sa, n) = (map forgetId r, sa, n)"
  by (simp add: stripState_def)

lemma assignCandidates_forget:
  "assignCandidates noUUID cs (map forgetId as, sa, n) = stripState (assignCandidates rnd cs (as, sa, n))"
proof (induction cs arbitrary: as sa n)
  case Nil
  show ?case by simp
next
  case (Cons c cs)
  let ?f = "\<lambda>c. LocalStudent.contact_id (MatchCandidate.student c)"
  have ex: "list_ex (\<lambda>m. student_external_id m = ?f c) (map forgetId as)
              = list_ex (\<lambda>m. student_external_id m = ?f c) as"
    by (simp add: list_ex_iff)
  show ?case
  proof (cases "length as \<ge> 2")
    case True
    then show ?thesis by simp
  next
    case False
    note short = this
    show ?thesis
    proof (cases "list_ex (\<lambda>m. student_external_id m = ?f c) as")
      case True
      with short ex Cons.IH[of as sa n] show ?thesis by (simp add: Let_def)
    next
      case False
      let ?m = "\<lambda>i. \<lparr> id' = i,
                        student_external_id = ?f c,
                        soldier_external_id = LocalSoldier.contact_id (MatchCandidate.soldier c),
                        confidence_score = score c,
                        match_rank = length as + 1,
                        match_criteria = criteria c,
                        status = suggested,
                        EnrichedMatch.student = Some (MatchCandidate.student c),
                        EnrichedMatch.soldier = Some (MatchCandidate.soldier c) \<rparr>"
      let ?sa1 = "if length as + 1 = 1 then sa(?f c \<mapsto> getCount sa (?f c) + 1) else sa"
      have l: "assignCandidates rnd (c # cs) (as, sa, n)
                 = assignCandidates rnd cs (as @ [?m (rnd n)], ?sa1, Suc n)"
        using False short by (simp add: Let_def)
      have r: "assignCandidates noUUID (c # cs) (map forgetId as, sa, n)
                 = assignCandidates noUUID cs (map forgetId as @ [?m []], ?sa1, Suc n)"
        using False short ex by (simp add: Let_def noUUID_def)
      have "map forgetId (as @ [?m (rnd n)]) = map forgetId as @ [?m []]"
        by (simp add: forgetId_def)
      with Cons.IH[of "as @ [?m (rnd n)]" ?sa1 "Suc n"] l r show ?thesis by simp
    qed
  qed
qed

lemma processSoldier_forget:
  "processSoldier noUUID (stripState st) e = stripState (processSoldier rnd st e)"
proof -
  obtain r sa n k cs where st: "st = (r, sa, n)" "e = (k, cs)" by (cases st, cases e) auto
  show ?thesis
  proof (cases "cs = []")
    case True
    with st show ?thesis by (simp add: processSoldier_def)
  next
    case False
    let ?sorted = "sort_key (\<lambda>c. (getCount sa (LocalStudent.contact_id (MatchCandidate.student c)),
                                - score c)) cs"
    obtain as' sa' n' where run: "assignCandidates rnd ?sorted ([], sa, n) = (as', sa', n')"
      by (cases "assignCandidates rnd ?sorted ([], sa, n)") auto
    from assignCandidates_forget[of ?sorted "[]" sa n rnd] run
    have "assignCandidates noUUID ?sorted ([], sa, n) = (map forgetId as', sa', n')" by simp
    with run False st show ?thesis by (simp add: processSoldier_def Let_def)
  qed
qed

lemma foldl_processSoldier_forget:
  "foldl (processSoldier noUUID) (stripState st) es = stripState (foldl (processSoldier rnd) st es)"
  by (induction es arbitrary: st) (simp_all add: processSoldier_forget[where rnd = rnd])

lemma assignAll_forget:
  "assignAll noUUID m students = stripState (assignAll rnd m students)"
  using foldl_processSoldier_forget[of "([], initialAssignments students, 0)" _ rnd]
  by (simp add: assignAll_def)

lemma findBestSwap_forget:
  "findBestSwap sa (map forgetId r) i (b, ov) = findBestSwap sa r i (b, ov)"
proof (induction sa r i "(b, ov)" arbitrary: b ov rule: findBestSwap.induct)
  case (1 sa r i b ov)
  show ?case
  proof (cases "i < length r")
    case False
    then show ?thesis
      by (simp add: findBestSwap_unfold[of sa r i] findBestSwap_unfold[of sa "map forgetId r" i])
  next
    case True
    note lt = this
    show ?thesis
    proof (cases "match_rank (r ! i) \<noteq> 2")
      case True
      from "1.hyps"(1)[OF lt refl True] lt True show ?thesis
        by (simp add: findBestSwap_unfold[of sa r i] findBestSwap_unfold[of sa "map forgetId r" i])
    next
      case False
      note r2 = this
      show ?thesis
      proof (cases "getCount sa (student_external_id (r ! i)) > ov")
        case True
        from "1.hyps"(2)[OF lt refl r2 refl refl True] lt r2 True show ?thesis
          by (simp add: findBestSwap_unfold[of sa r i] findBestSwap_unfold[of sa "map forgetId r" i])
      next
        case False
        from "1.hyps"(3)[OF lt refl r2 refl refl False] lt r2 False show ?thesis
          by (simp add: findBestSwap_unfold[of sa r i] findBestSwap_unfold[of sa "map forgetId r" i])
      qed
    qed
  qed
qed

lemma swapUnused_forget:
  "swapUnused ds noUUID u (stripState st) = map_sum id stripState (swapUnused ds rnd u st)"
proof -
  obtain r sa n where st: "st = (r, sa, n)" by (cases st) auto
  obtain b ov where fb: "findBestSwap sa r 0 (- 1, 0) = (b, ov)"
    by (cases "findBestSwap sa r 0 (- 1, 0)") auto
  then have fb': "findBestSwap sa (map forgetId r) 0 (- 1, 0) = (b, ov)"
    by (simp add: findBestSwap_forget)
  show ?thesis
  proof (cases "b \<ge> 0 \<and> ov > 1")
    case False
    then have "swapUnused ds rnd u (r, sa, n) = Inr (r, sa, n)"
      "swapUnused ds noUUID u (map forgetId r, sa, n) = Inr (map forgetId r, sa, n)"
      using fb fb' by (auto simp: swapUnused_def)
    with st show ?thesis by simp
  next
    case True
    note go = this
    show ?thesis
    proof (cases "nat b < length r")
      case False
      then have "swapUnused ds rnd u (r, sa, n) = Inl TypeError"
        "swapUnused ds noUUID u (map forgetId r, sa, n) = Inl TypeError"
        using fb fb' go by (auto simp: swapUnused_def)
      with st show ?thesis by simp
    next
      case True
      note idx = this
      then have nth: "map forgetId r ! nat b = forgetId (r ! nat b)" by simp
      show ?thesis
      proof (cases "EnrichedMatch.soldier (r ! nat b)")
        case None
        then have "swapUnused ds rnd u (r, sa, n) = Inl TypeError"
          "swapUnused ds noUUID u (map forgetId r, sa, n) = Inl TypeError"
          using fb fb' go idx nth by (auto simp: swapUnused_def Let_def)
        with st show ?thesis by simp
      next
        case (Some s)
        let ?sol' = "\<lparr> LocalSoldier.contact_id = soldier_external_id (r ! nat b),
                         full_name = None, phone = None, email = None, full_address = None,
                         coordinator = None, notes = None, special_requests = None,
                         gender = LocalSoldier.gender s,
                         city = LocalSoldier.city s,
                         city_code = LocalSoldier.city_code s,
                         region = LocalSoldier.region s,
                         origin_country = LocalSoldier.origin_country s,
                         mother_tongue = LocalSoldier.mother_tongue s,
                         mother_tongue_code = LocalSoldier.mother_tongue_code s,
                         language_preference = language_preference s,
                         volunteer_gender_preference = volunteer_gender_preference s,
                         soldier_status = soldier_status s,
                         has_special_requests = has_special_requests s \<rparr>"
        obtain c where c: "calculateSecureMatch ds u ?sol' = Some c"
          using calculateSecureMatch_Some by blast
        let ?x = "\<lambda>i. \<lparr> id' = i,
                             student_external_id = LocalStudent.contact_id u,
                             soldier_external_id = soldier_external_id (r ! nat b),
                             confidence_score = score c,
                             match_rank = 2,
                             match_criteria = criteria c,
                             status = suggested,
                             EnrichedMatch.student = Some u,
                             EnrichedMatch.soldier = Some s \<rparr>"
        let ?sa' = "sa(LocalStudent.contact_id u \<mapsto> getCount sa (LocalStudent.contact_id u) + 1)"
        have l: "swapUnused ds rnd u (r, sa, n) = Inr (r[nat b := ?x (rnd n)], ?sa', Suc n)"
          using fb go idx Some c by (simp add: swapUnused_def Let_def)
        have r: "swapUnused ds noUUID u (map forgetId r, sa, n)
                   = Inr ((map forgetId r)[nat b := ?x []], ?sa', Suc n)"
          using fb' go idx Some c nth by (simp add: swapUnused_def Let_def noUUID_def)
        have "map forgetId (r[nat b := ?x (rnd n)]) = (map forgetId r)[nat b := ?x []]"
          by (simp add: map_update forgetId_def)
        with l r st show ?thesis by simp
      qed
    qed
  qed
qed

lemma swapLoop_forget:
  "swapLoop ds noUUID us (stripState st) = map_sum id stripState (swapLoop ds rnd us st)"
proof (induction us arbitrary: st)
  case Nil
  show ?case by simp
next
  case (Cons u us)
  show ?case
  proof (cases "swapUnused ds rnd u st")
    case (Inl e)
    with swapUnused_forget[of ds u st rnd] show ?thesis by simp
  next
    case (Inr st1)
    with swapUnused_forget[of ds u st rnd] Cons.IH[of st1] show ?thesis by simp
  qed
qed

lemma unusedStudentsOf_forget:
  "unusedStudentsOf (map forgetId r) students = unusedStudentsOf r students"
  by (simp add: unusedStudentsOf_def o_def)

lemma finalPass_forget:
  "finalPass ds noUUID students (stripState st) = map_sum id stripState (finalPass ds rnd students st)"
proof -
  obtain r sa n where st: "st = (r, sa, n)" by (cases st) auto
  show ?thesis
    using swapLoop_forget[of ds "unusedStudentsOf r students" st rnd] st
    by (simp add: finalPass_def Let_def unusedStudentsOf_forget)
qed

lemma optimizeSecureMatches_forget:
  "optimizeSecureMatches ds noUUID m students
     = map_sum id (map forgetId) (optimizeSecureMatches ds rnd m students)"
proof -
  have a: "assignAll noUUID m students = stripState (assignAll rnd m students)"
    by (rule assignAll_forget)
  show ?thesis
  proof (cases "finalPass ds rnd students (assignAll rnd m students)")
    case (Inl e)
    with finalPass_forget[of ds students "assignAll rnd m students" rnd] a
    show ?thesis by (simp add: optimizeSecureMatches_def)
  next
    case (Inr st')
    with finalPass_forget[of ds students "assignAll rnd m students" rnd] a
    show ?thesis by (cases st') (simp add: optimizeSecureMatches_def)
  qed
qed

lemma insort_key_forget:
  "insort_key (\<lambda>m. - confidence_score m) (forgetId x) (map forgetId xs)
     = map forgetId (insort_key (\<lambda>m. - confidence_score m) x xs)"
  by (induction xs) simp_all

lemma sort_key_forget:
  "sort_key (\<lambda>m. - confidence_score m) (map forgetId xs)
     = map forgetId (sort_key (\<lambda>m. - confidence_score m) xs)"
  by (induction xs) (simp_all add: insort_key_forget)

lemma buildSummary_forget:
  "buildSummary students soldiers (map forgetId ms) = buildSummary students soldiers ms"
proof -
  have 1: "countBySoldier (map forgetId ms) = countBySoldier ms"
    by (simp add: countBySoldier_def foldl_map)
  have 2: "collectUsed (map forgetId ms) = collectUsed ms"
    by (simp add: collectUsed_def foldl_map)
  have 3: "foldl (\<lambda>s m. s + confidence_score m) 0 (map forgetId ms)
             = foldl (\<lambda>s m. s + confidence_score m) 0 ms"
    by (simp add: foldl_map)
  have 4: "length (filter P (map forgetId ms)) = length (filter (P \<circ> forgetId) ms)" for P
    by (simp add: filter_map)
  show ?thesis
    by (simp add: buildSummary_def 1 2 3 4 o_def Let_def)
qed

lemma runSecureMatchingAlgorithm_forget:
  "runSecureMatchingAlgorithm ds noUUID students soldiers
     = map_sum id (\<lambda>(ms, s). (map forgetId ms, s)) (runSecureMatchingAlgorithm ds rnd students soldiers)"
proof (cases "optimizeSecureMatches ds rnd (findAllSecureMatches ds students soldiers) students")
  case (Inl e)
  with optimizeSecureMatches_forget[of ds "findAllSecureMatches ds students soldiers" students rnd]
  show ?thesis by (simp add: runSecureMatchingAlgorithm_def)
next
  case (Inr r)
  with optimizeSecureMatches_forget[of ds "findAllSecureMatches ds students soldiers" students rnd]
  show ?thesis
    by (simp add: runSecureMatchingAlgorithm_def Let_def sort_key_forget buildSummary_forget)
qed

lemma runSecureMatchingAlgorithm_returns:
  "\<exists>ms s. runSecureMatchingAlgorithm ds rnd students soldiers = Inr (ms, s)"
proof -
  obtain r where "optimizeSecureMatches ds rnd (findAllSecureMatches ds students soldiers) students = Inr r"
    using optimizeSecureMatches_total by blast
  then show ?thesis by (simp add: runSecureMatchingAlgorithm_def Let_def)
qed

text \<open>
  Claim C9 as stated fails: two runs on the same student and the same soldier, drawing
  different values from \<^verbatim>\<open>crypto.randomUUID\<close>, return different results (the \<^verbatim>\<open>id\<close> of the
  assignment differs).
\<close>

theorem run_ids_differ_counterexample:
  "runSecureMatchingAlgorithm exampleScore uuids1 [studentA] [soldier1]
     \<noteq> runSecureMatchingAlgorithm exampleScore uuids2 [studentA] [soldier1]"
proof
  assume "runSecureMatchingAlgorithm exampleScore uuids1 [studentA] [soldier1]
            = runSecureMatchingAlgorithm exampleScore uuids2 [studentA] [soldier1]"
  then have "map id' (fst (projr (runSecureMatchingAlgorithm exampleScore uuids1 [studentA] [soldier1])))
               = map id' (fst (projr (runSecureMatchingAlgorithm exampleScore uuids2 [studentA] [soldier1])))"
    by simp
  moreover have "map id' (fst (projr (runSecureMatchingAlgorithm exampleScore uuids1 [studentA] [soldier1])))
                   = [''a'']"
    by code_simp
  moreover have "map id' (fst (projr (runSecureMatchingAlgorithm exampleScore uuids2 [studentA] [soldier1])))
                   = [''b'']"
    by code_simp
  ultimately show False by simp
qed

text \<open>
  Claim C9, amended. Two runs of \<^verbatim>\<open>runSecureMatchingAlgorithm\<close> on the same students and
  soldiers, with the same distance scores, both return, with the same summary and with the
  same assignments in the same order but for the field \<^verbatim>\<open>id\<close>, whatever values
  \<^verbatim>\<open>crypto.randomUUID\<close> yields in each run.
\<close>

theorem run_deterministic_up_to_ids:
  "\<exists>ms1 ms2 s.
      runSecureMatchingAlgorithm distanceScoreOf randomUUID1 students soldiers = Inr (ms1, s) \<and>
      runSecureMatchingAlgorithm distanceScoreOf randomUUID2 students soldiers = Inr (ms2, s) \<and>
      map forgetId ms1 = map forgetId ms2"
proof -
  obtain ms1 s1 where r1: "runSecureMatchingAlgorithm distanceScoreOf randomUUID1 students soldiers = Inr (ms1, s1)"
    using runSecureMatchingAlgorithm_returns by blast
  obtain ms2 s2 where r2: "runSecureMatchingAlgorithm distanceScoreOf randomUUID2 students soldiers = Inr (ms2, s2)"
    using runSecureMatchingAlgorithm_returns by blast
  from runSecureMatchingAlgorithm_forget[of distanceScoreOf students soldiers randomUUID1] r1
  have "runSecureMatchingAlgorithm distanceScoreOf noUUID students soldiers = Inr (map forgetId ms1, s1)"
    by simp
  moreover
  from runSecureMatchingAlgorithm_forget[of distanceScoreOf students soldiers randomUUID2] r2
  have "runSecureMatchingAlgorithm distanceScoreOf noUUID students soldiers = Inr (map forgetId ms2, s2)"
    by simp
  ultimately have "map forgetId ms1 = map forgetId ms2" "s1 = s2" by simp_all
  with r1 r2 show ?thesis by blast
qed

theorem run_deterministic_up_to_ids_witness:
  "\<exists>ms1 ms2 s.
      runSecureMatchingAlgorithm exampleScore uuids1 [studentA, studentB] [soldier1] = Inr (ms1, s) \<and>
      runSecureMatchingAlgorithm exampleScore uuids2 [studentA, studentB] [soldier1] = Inr (ms2, s) \<and>
      map forgetId ms1 = map forgetId ms2"
  by (rule run_deterministic_up_to_ids)

section \<open>The end-to-end scenario\<close>

text \<open>
  Students A (Hebrew, Tel Aviv, female) and B (Russian, Haifa, male) and one soldier (Hebrew,
  Tel Aviv, prefers a female volunteer): A is assigned at rank 1 with score 100, B at rank 2
  with the floor score 1.
\<close>

lemma example_end_to_end:
  "map (\<lambda>m. (student_external_id m, soldier_external_id m, confidence_score m, match_rank m))
     (fst (projr (runSecureMatchingAlgorithm exampleScore uuids1 [studentA, studentB] [soldier1])))
     = [(''A'', ''s1'', 100, 1), (''B'', ''s1'', 1, 2)]"
  by code_simp

end
